theory Spec2Isabelle
  imports Complex_Main
begin

section \<open>Python and numpy values\<close>

text \<open>
  The module \<open>gravmag/convolve.py\<close> works on numpy arrays of floats.  Here floats are
  exact: a one-dimensional array is a \<open>real list\<close>, a two-dimensional array is the list of
  its rows (all of one length), a three-dimensional array is a list of matrices.  Every
  \<open>raise\<close> of the source, and every exception of Python or numpy that the source can run
  into, is a value \<open>Inl e\<close>.
\<close>

datatype error = ValueError | TypeError | IndexError | UnboundLocalError

definition shape1 :: "'a list list \<Rightarrow> nat" where
  "shape1 X = (case X of [] \<Rightarrow> 0 | r # _ \<Rightarrow> length r)"

definition rectangular :: "'a list list \<Rightarrow> bool" where
  "rectangular X = list_all (\<lambda>r. length r = shape1 X) X"

text \<open>Sequencing of computations that may raise: the first error wins.\<close>

fun sequence :: "(error + 'a) list \<Rightarrow> error + 'a list" where
  "sequence [] = Inr []"
| "sequence (Inl e # rs) = Inl e"
| "sequence (Inr x # rs) = (case sequence rs of Inl e \<Rightarrow> Inl e | Inr xs \<Rightarrow> Inr (x # xs))"

text \<open>
  Integer-array indexing \<open>a[ind]\<close> along the first axis.  An index \<open>i\<close> with
  \<open>-n \<le> i < n\<close> reads position \<open>i\<close> or \<open>n + i\<close>; any other index raises IndexError.
\<close>

definition in_bounds :: "nat \<Rightarrow> int \<Rightarrow> bool" where
  "in_bounds n i = (- int n \<le> i \<and> i < int n)"

definition wrap_index :: "nat \<Rightarrow> int \<Rightarrow> nat" where
  "wrap_index n i = nat (if i < 0 then int n + i else i)"

definition fancy_index :: "'a list \<Rightarrow> int list list \<Rightarrow> error + 'a list list" where
  "fancy_index a ind =
     (if list_all (list_all (in_bounds (length a))) ind
      then Inr (map (map (\<lambda>i. a ! wrap_index (length a) i)) ind)
      else Inl IndexError)"

text \<open>
  \<open>np.ogrid[0:n, n-1:-1:-1]\<close> summed: entry \<open>(r, c)\<close> is \<open>r + (n - 1 - c)\<close>.  Both ranges are
  empty when \<open>n \<le> 0\<close>.
\<close>

definition toeplitz_indices :: "int \<Rightarrow> int list list" where
  "toeplitz_indices n =
     map (\<lambda>r. map (\<lambda>c. int r + (n - 1 - int c)) [0..<nat n]) [0..<nat n]"

text \<open>\<open>np.ogrid[0:n, 0:-n:-1]\<close> summed: entry \<open>(r, c)\<close> is \<open>r - c\<close>.\<close>

definition circulant_indices :: "int \<Rightarrow> int list list" where
  "circulant_indices n =
     map (\<lambda>r. map (\<lambda>c. int r - int c) [0..<nat n]) [0..<nat n]"

text \<open>Slices \<open>a[:n]\<close> and \<open>a[n:]\<close> for a Python integer \<open>n\<close> (negative counts from the end).\<close>

definition slice_to :: "int \<Rightarrow> 'a list \<Rightarrow> 'a list" where
  "slice_to n a = (if 0 \<le> n then take (nat n) a else take (length a - nat (- n)) a)"

definition slice_from :: "int \<Rightarrow> 'a list \<Rightarrow> 'a list" where
  "slice_from n a = (if 0 \<le> n then drop (nat n) a else drop (length a - nat (- n)) a)"

text \<open>
  The reversed slices \<open>a[-1:0:-1]\<close> (written \<open>rev (tl a)\<close> below) and \<open>a[-1:n-1:-1]\<close>,
  the elements from the last one down to position \<open>n\<close>; a stop \<open>n - 1\<close> below zero counts
  from the end.
\<close>

definition slice_back :: "int \<Rightarrow> 'a list \<Rightarrow> 'a list" where
  "slice_back n a =
     (if 1 \<le> n then rev (drop (nat n) a) else rev (drop (nat (int (length a) + n)) a))"

text \<open>\<open>np.stack\<close> of a list of equally shaped arrays; the empty list raises ValueError.\<close>

definition stack :: "'a list \<Rightarrow> error + 'a list" where
  "stack blocks = (if blocks = [] then Inl ValueError else Inr blocks)"

text \<open>
  \<open>np.hstack\<close> of a sequence of arrays of two or more dimensions concatenates them along
  axis 1; the empty sequence raises ValueError.
\<close>

definition hstack :: "'a list list list \<Rightarrow> error + 'a list list" where
  "hstack arrays =
     (if arrays = [] then Inl ValueError
      else Inr (map (\<lambda>a. concat (map (\<lambda>A. A ! a) arrays)) [0..<length (hd arrays)]))"

text \<open>\<open>np.reshape(a, (rows, cols))\<close> in row-major order, and the transpose \<open>.T\<close>.\<close>

definition reshape :: "'a list \<Rightarrow> nat \<Rightarrow> nat \<Rightarrow> 'a list list" where
  "reshape a rows cols = map (\<lambda>i. take cols (drop (i * cols) a)) [0..<rows]"

definition transpose2 :: "'a list list \<Rightarrow> 'a list list" where
  "transpose2 X = map (\<lambda>j. map (\<lambda>r. r ! j) X) [0..<shape1 X]"

text \<open>The matrix-vector product \<open>T @ v\<close>.\<close>

definition matvec :: "real list list \<Rightarrow> real list \<Rightarrow> real list" where
  "matvec T v = map (\<lambda>row. \<Sum>j<length v. row ! j * v ! j) T"

section \<open>The validation helpers of module check\<close>

text \<open>
  Modelled from the spec: the module \<open>gravmag/check.py\<close> is not part of the sources at hand.
  \<open>check.is_integer(x, positive=True)\<close> fails unless \<open>x\<close> is a positive integer.
\<close>

definition is_integer :: "int \<Rightarrow> error option" where
  "is_integer x = (if 0 < x then None else Some ValueError)"

text \<open>
  Modelled from the spec: \<open>check.Toeplitz_metadata(symmetry, column, row)\<close> fails on a
  symmetry tag other than the three known ones, on an empty column, on a generic
  symmetry without a row, and on a row whose length is not that of the column minus one.
\<close>

definition Toeplitz_metadata :: "string \<Rightarrow> real list \<Rightarrow> real list option \<Rightarrow> error option" where
  "Toeplitz_metadata symmetry column row =
     (if symmetry \<notin> set [''symm'', ''skew'', ''gene''] then Some ValueError
      else if column = [] then Some ValueError
      else if symmetry = ''gene'' \<and> row = None then Some ValueError
      else (case row of
              None \<Rightarrow> None
            | Some r \<Rightarrow> if length r + 1 \<noteq> length column then Some ValueError else None))"

text \<open>
  Modelled from the spec: \<open>check.BTTB_metadata\<close> fails on an invalid symmetry tag, on a
  number of blocks that is not positive, on generic blocks without rows, on a table of
  columns whose number of rows is not \<open>nblocks\<close> (symmetric or skew-symmetric structure)
  or \<open>2 * nblocks - 1\<close> (generic structure), on empty generating columns, and on a table
  of rows that does not match the table of columns.
\<close>

definition BTTB_metadata ::
  "string \<Rightarrow> string \<Rightarrow> int \<Rightarrow> real list list \<Rightarrow> real list list option \<Rightarrow> error option" where
  "BTTB_metadata symmetry_structure symmetry_blocks nblocks columns rows =
     (if symmetry_structure \<notin> set [''symm'', ''skew'', ''gene''] then Some ValueError
      else if symmetry_blocks \<notin> set [''symm'', ''skew'', ''gene''] then Some ValueError
      else if nblocks \<le> 0 then Some ValueError
      else if shape1 columns = 0 then Some ValueError
      else if rectangular columns = False then Some ValueError
      else if int (length columns) \<noteq>
                (if symmetry_structure = ''gene'' then 2 * nblocks - 1 else nblocks)
           then Some ValueError
      else if symmetry_blocks = ''gene'' \<and> rows = None then Some ValueError
      else (case rows of
              None \<Rightarrow> None
            | Some rs \<Rightarrow>
                if rectangular rs \<and> length rs = length columns
                   \<and> list_all (\<lambda>r. length r + 1 = shape1 columns) rs
                then None else Some ValueError))"

section \<open>generic\_BTTB\<close>

text \<open>
  One Toeplitz block: \<open>np.concatenate((reflected, column))[ind_blocks]\<close>, where the
  reflected part is \<open>column[-1:0:-1]\<close> (symmetric blocks), its negative (skew-symmetric
  blocks) or \<open>row[::-1]\<close> (generic blocks).
\<close>

definition block_symm :: "int list list \<Rightarrow> real list \<Rightarrow> error + real list list" where
  "block_symm ind_blocks column = fancy_index (rev (tl column) @ column) ind_blocks"

definition block_skew :: "int list list \<Rightarrow> real list \<Rightarrow> error + real list list" where
  "block_skew ind_blocks column =
     fancy_index (map uminus (rev (tl column)) @ column) ind_blocks"

definition block_gene :: "int list list \<Rightarrow> real list \<times> real list \<Rightarrow> error + real list list" where
  "block_gene ind_blocks cr = fancy_index (rev (snd cr) @ fst cr) ind_blocks"

definition negate_blocks :: "real list list list \<Rightarrow> real list list list" where
  "negate_blocks blocks = map (map (map uminus)) blocks"

text \<open>
  The loop that fills \<open>blocks\<close>, by the symmetry of the blocks.  With generic blocks the
  loop runs over \<open>zip(columns, rows)\<close>, which raises TypeError when \<open>rows\<close> is None.
\<close>

definition make_blocks ::
  "string \<Rightarrow> int list list \<Rightarrow> real list list \<Rightarrow> real list list option
   \<Rightarrow> error + real list list list" where
  "make_blocks symmetry_blocks ind_blocks columns rows =
     (if symmetry_blocks = ''symm'' then sequence (map (block_symm ind_blocks) columns)
      else if symmetry_blocks = ''skew'' then sequence (map (block_skew ind_blocks) columns)
      else (case rows of
              None \<Rightarrow> Inl TypeError
            | Some rs \<Rightarrow> sequence (map (block_gene ind_blocks) (zip columns rs))))"

text \<open>
  The array \<open>concatenated_blocks\<close>: the block row in reversed order, then the block column.
  With a generic structure the block column comes from \<open>columns[:nblocks]\<close> and the block
  row from \<open>columns[nblocks:]\<close>, both stacked by \<open>np.stack\<close>.
\<close>

definition concatenated_blocks ::
  "string \<Rightarrow> string \<Rightarrow> int \<Rightarrow> int list list \<Rightarrow> real list list \<Rightarrow> real list list option
   \<Rightarrow> error + real list list list" where
  "concatenated_blocks symmetry_structure symmetry_blocks nblocks ind_blocks columns rows =
     (if symmetry_structure = ''symm'' then
        (case make_blocks symmetry_blocks ind_blocks columns rows of
           Inl e \<Rightarrow> Inl e
         | Inr blocks \<Rightarrow>
             (case stack blocks of
                Inl e \<Rightarrow> Inl e
              | Inr st \<Rightarrow> Inr (rev (tl st) @ st)))
      else if symmetry_structure = ''skew'' then
        (case make_blocks symmetry_blocks ind_blocks columns rows of
           Inl e \<Rightarrow> Inl e
         | Inr blocks \<Rightarrow>
             (case stack blocks of
                Inl e \<Rightarrow> Inl e
              | Inr st \<Rightarrow> Inr (negate_blocks (rev (tl st)) @ st)))
      else
        (case make_blocks symmetry_blocks ind_blocks (slice_to nblocks columns)
                (map_option (slice_to nblocks) rows) of
           Inl e \<Rightarrow> Inl e
         | Inr blocks_1j \<Rightarrow>
             (case make_blocks symmetry_blocks ind_blocks (slice_from nblocks columns)
                     (map_option (slice_from nblocks) rows) of
                Inl e \<Rightarrow> Inl e
              | Inr blocks_i1 \<Rightarrow>
                  (case stack blocks_i1 of
                     Inl e \<Rightarrow> Inl e
                   | Inr st_i1 \<Rightarrow>
                       (case stack blocks_1j of
                          Inl e \<Rightarrow> Inl e
                        | Inr st_1j \<Rightarrow> Inr (rev st_i1 @ st_1j))))))"

definition generic_BTTB ::
  "string \<Rightarrow> string \<Rightarrow> int \<Rightarrow> real list list \<Rightarrow> real list list option \<Rightarrow> bool
   \<Rightarrow> error + real list list" where
  "generic_BTTB symmetry_structure symmetry_blocks nblocks columns rows check_input =
     (case (if check_input
            then BTTB_metadata symmetry_structure symmetry_blocks nblocks columns rows
            else None) of
        Some e \<Rightarrow> Inl e
      | None \<Rightarrow>
          (let npoints_per_block = shape1 columns;
               ind_blocks = toeplitz_indices (int npoints_per_block)
           in case concatenated_blocks symmetry_structure symmetry_blocks nblocks
                     ind_blocks columns rows of
                Inl e \<Rightarrow> Inl e
              | Inr cb \<Rightarrow>
                  (case fancy_index cb (toeplitz_indices nblocks) of
                     Inl e \<Rightarrow> Inl e
                   | Inr gathered \<Rightarrow>
                       (case hstack gathered of
                          Inl e \<Rightarrow> Inl e
                        | Inr inner \<Rightarrow> hstack inner))))"

section \<open>Circulant\_from\_Toeplitz\<close>

datatype array = Array1 "real list" | Array2 "real list list"

text \<open>
  The first column \<open>C\<close> of the embedding circulant: the column, a zero and the row in
  reversed order.  With generic symmetry \<open>row[::-1]\<close> raises TypeError when \<open>row\<close> is None.
\<close>

definition circulant_column :: "string \<Rightarrow> real list \<Rightarrow> real list option \<Rightarrow> error + real list" where
  "circulant_column symmetry column row =
     (if symmetry = ''symm'' then Inr (column @ [0] @ rev (tl column))
      else if symmetry = ''skew'' then Inr (column @ [0] @ map uminus (rev (tl column)))
      else (case row of
              None \<Rightarrow> Inl TypeError
            | Some r \<Rightarrow> Inr (column @ [0] @ rev r)))"

definition Circulant_from_Toeplitz ::
  "string \<Rightarrow> real list \<Rightarrow> real list option \<Rightarrow> bool \<Rightarrow> bool \<Rightarrow> error + array" where
  "Circulant_from_Toeplitz symmetry column row full check_input =
     (case (if check_input then Toeplitz_metadata symmetry column row else None) of
        Some e \<Rightarrow> Inl e
      | None \<Rightarrow>
          (let P = length column
           in case circulant_column symmetry column row of
                Inl e \<Rightarrow> Inl e
              | Inr C \<Rightarrow>
                  if full
                  then (case fancy_index C (circulant_indices (2 * int P)) of
                          Inl e \<Rightarrow> Inl e
                        | Inr M \<Rightarrow> Inr (Array2 M))
                  else Inr (Array1 C)))"

section \<open>BCCB\_from\_BTTB\<close>

text \<open>
  \<open>BCCB_from_BTTB\<close> calls \<open>Circulant_from_Toeplitz\<close> with positional arguments only.
  Python binds them, in order, to \<open>symmetry\<close>, \<open>column\<close>, \<open>row\<close>, \<open>full\<close> and
  \<open>check_input\<close>; the first three have no default, so a call with fewer than three
  arguments raises TypeError before the body runs, as does a call with more than five.
  The calls in the source pass arrays in the places of \<open>symmetry\<close> and \<open>column\<close> and
  never reach the binding of a full argument list; for completeness, a full list is
  bound when its values have the types of the parameters and is answered with TypeError
  otherwise.
\<close>

datatype argument = Str string | Vec "real list" | NoneValue | Bool bool

text \<open>The optional positional argument at place \<open>i\<close>; both defaults are True.\<close>

definition bool_argument :: "argument list \<Rightarrow> nat \<Rightarrow> bool option" where
  "bool_argument args i =
     (if i < length args then (case args ! i of Bool b \<Rightarrow> Some b | _ \<Rightarrow> None)
      else Some True)"

definition call_Circulant_from_Toeplitz :: "argument list \<Rightarrow> error + array" where
  "call_Circulant_from_Toeplitz args =
     (if length args < 3 then Inl TypeError
      else if 5 < length args then Inl TypeError
      else (case (args ! 0, args ! 1, args ! 2, bool_argument args 3, bool_argument args 4) of
              (Str symmetry, Vec column, Vec row, Some full, Some check_input) \<Rightarrow>
                Circulant_from_Toeplitz symmetry column (Some row) full check_input
            | (Str symmetry, Vec column, NoneValue, Some full, Some check_input) \<Rightarrow>
                Circulant_from_Toeplitz symmetry column None full check_input
            | _ \<Rightarrow> Inl TypeError))"

text \<open>\<open>np.stack\<close> of the embedded blocks, which are two-dimensional arrays.\<close>

fun stack_arrays :: "array list \<Rightarrow> error + real list list list" where
  "stack_arrays [] = Inl ValueError"
| "stack_arrays as =
     sequence (map (\<lambda>a. case a of Array2 M \<Rightarrow> Inr M | Array1 c \<Rightarrow> Inl ValueError) as)"

text \<open>
  The two \<open>if\<close> statements that assign \<open>C_blocks\<close>; when both conditions hold the second
  assignment wins, when neither holds the name stays unbound (None here).
\<close>

definition C_blocks_of ::
  "int \<Rightarrow> nat \<Rightarrow> nat \<Rightarrow> array list \<Rightarrow> error + real list list list option" where
  "C_blocks_of nblocks shape0 C_npoints_per_block nonull_blocks =
     (let zeros = [replicate C_npoints_per_block (replicate C_npoints_per_block 0)];
          first =
            (if int shape0 = nblocks then
               (case stack_arrays nonull_blocks of
                  Inl e \<Rightarrow> Inl e
                | Inr st \<Rightarrow>
                    (case stack_arrays (rev (tl nonull_blocks)) of
                       Inl e \<Rightarrow> Inl e
                     | Inr back \<Rightarrow> Inr (Some (st @ zeros @ back))))
             else Inr None)
      in case first of
           Inl e \<Rightarrow> Inl e
         | Inr C_blocks \<Rightarrow>
             if int shape0 = 2 * nblocks - 1 then
               (case stack_arrays (slice_to nblocks nonull_blocks) of
                  Inl e \<Rightarrow> Inl e
                | Inr st \<Rightarrow>
                    (case stack_arrays (slice_back nblocks nonull_blocks) of
                       Inl e \<Rightarrow> Inl e
                     | Inr back \<Rightarrow> Inr (Some (st @ zeros @ back))))
             else Inr C_blocks)"

definition BCCB_from_BTTB ::
  "string \<Rightarrow> string \<Rightarrow> int \<Rightarrow> real list list \<Rightarrow> real list list option \<Rightarrow> bool \<Rightarrow> bool
   \<Rightarrow> error + real list list" where
  "BCCB_from_BTTB symmetry_structure symmetry_blocks nblocks columns rows full check_input =
     (case (if check_input
            then BTTB_metadata symmetry_structure symmetry_blocks nblocks columns rows
            else None) of
        Some e \<Rightarrow> Inl e
      | None \<Rightarrow>
          (case (case rows of
                   None \<Rightarrow>
                     sequence (map (\<lambda>column. call_Circulant_from_Toeplitz [Vec column]) columns)
                 | Some rs \<Rightarrow>
                     if length columns \<noteq> length rs then Inl ValueError
                     else if shape1 columns \<noteq> shape1 rs + 1 then Inl ValueError
                     else sequence (map (\<lambda>(column, row).
                            call_Circulant_from_Toeplitz [Vec column, Vec row]) (zip columns rs))) of
             Inl e \<Rightarrow> Inl e
           | Inr nonull_blocks \<Rightarrow>
               (case C_blocks_of nblocks (length columns) (2 * shape1 columns) nonull_blocks of
                  Inl e \<Rightarrow> Inl e
                | Inr None \<Rightarrow> Inl UnboundLocalError
                | Inr (Some C_blocks) \<Rightarrow>
                    (case fancy_index C_blocks (circulant_indices (2 * nblocks)) of
                       Inl e \<Rightarrow> Inl e
                     | Inr gathered \<Rightarrow>
                         (case hstack gathered of
                            Inl e \<Rightarrow> Inl e
                          | Inr inner \<Rightarrow> hstack inner)))))"

section \<open>embedding\_BCCB\_first\_column\<close>

text \<open>
  The dictionary \<open>BCCB0\<close>.  A record has exactly its four fields, so the source's tests on
  the type and the key list of the dictionary always pass here.
\<close>

record BCCB0 =
  first_column :: "real list"
  B_nblocks :: int
  B_npoints_per_block :: int
  B_symmetry :: string

text \<open>\<open>np.split(b0, nblocks)\<close> for a size that \<open>nblocks\<close> divides.\<close>

definition split :: "'a list \<Rightarrow> nat \<Rightarrow> 'a list list" where
  "split b0 nblocks = reshape b0 nblocks (length b0 div nblocks)"

definition embedding_BCCB_first_column ::
  "real list \<Rightarrow> int \<Rightarrow> int \<Rightarrow> string \<Rightarrow> error + BCCB0" where
  "embedding_BCCB_first_column b0 nblocks npoints_per_block symmetry =
     (if is_integer nblocks \<noteq> None then Inl ValueError
      else if is_integer npoints_per_block \<noteq> None then Inl ValueError
      else if int (length b0) \<noteq> nblocks * npoints_per_block then Inl ValueError
      else if symmetry \<notin> set [''skew-skew'', ''skew-symm'', ''symm-skew'', ''symm-symm'']
      then Inl ValueError
      else
        (let b_parts = split b0 (nat nblocks);
             zeros = replicate (nat (2 * npoints_per_block)) 0;
             c0 = [];
             c0 = (if symmetry = ''skew-skew''
                   then c0 @ map (\<lambda>bi. bi @ [0] @ map uminus (rev (tl bi))) b_parts
                           @ [zeros]
                           @ map (\<lambda>bi. map uminus bi @ [0] @ rev (tl bi)) (rev (tl b_parts))
                   else c0);
             c0 = (if symmetry = ''skew-symm''
                   then c0 @ map (\<lambda>bi. bi @ [0] @ rev (tl bi)) b_parts
                           @ [zeros]
                           @ map (\<lambda>bi. map uminus bi @ [0] @ map uminus (rev (tl bi)))
                               (rev (tl b_parts))
                   else c0);
             c0 = (if symmetry = ''symm-skew''
                   then c0 @ map (\<lambda>bi. bi @ [0] @ map uminus (rev (tl bi))) b_parts
                           @ [zeros]
                           @ map (\<lambda>bi. bi @ [0] @ map uminus (rev (tl bi))) (rev (tl b_parts))
                   else c0);
             c0 = (if symmetry = ''symm-symm''
                   then c0 @ map (\<lambda>bi. bi @ [0] @ rev (tl bi)) b_parts
                           @ [zeros]
                           @ map (\<lambda>bi. bi @ [0] @ rev (tl bi)) (rev (tl b_parts))
                   else c0)
         in Inr \<lparr>first_column = concat c0, B_nblocks = nblocks,
                 B_npoints_per_block = npoints_per_block, B_symmetry = symmetry\<rparr>))"

section \<open>The two-dimensional discrete Fourier transform\<close>

text \<open>
  \<open>scipy.fft.fft2(x, norm="ortho")\<close> and \<open>scipy.fft.ifft2(x, norm="ortho")\<close> in exact
  arithmetic: for \<open>x\<close> of shape \<open>(M, N)\<close>, entry \<open>(k, l)\<close> of the result is the sum of
  \<open>x[m, n] * exp(\<mp> 2 \<pi> i (k m / M + l n / N))\<close> over all \<open>m < M\<close>, \<open>n < N\<close>, divided by
  \<open>sqrt(M N)\<close>.
\<close>

definition dft2 :: "real \<Rightarrow> complex list list \<Rightarrow> complex list list" where
  "dft2 direction x =
     (let M = length x; N = shape1 x
      in map (\<lambda>k. map (\<lambda>l.
               (\<Sum>m<M. \<Sum>n<N. x ! m ! n *
                  cis (direction * (2 * pi * (real k * real m / real M + real l * real n / real N))))
               / complex_of_real (sqrt (real (M * N)))) [0..<N]) [0..<M])"

definition fft2 :: "complex list list \<Rightarrow> complex list list" where
  "fft2 x = dft2 (- 1) x"

definition ifft2 :: "complex list list \<Rightarrow> complex list list" where
  "ifft2 x = dft2 1 x"

section \<open>eigenvalues\_BCCB\<close>

record BCCB_eigen =
  eigenvalues :: "complex list list"
  E_ordering :: string
  E_nblocks :: int
  E_npoints_per_block :: int
  E_symmetry :: string

definition eigenvalues_BCCB :: "BCCB0 \<Rightarrow> string \<Rightarrow> error + BCCB_eigen" where
  "eigenvalues_BCCB BCCB0 ordering' =
     (let c0 = first_column BCCB0;
          nblocks = B_nblocks BCCB0;
          npoints_per_block = B_npoints_per_block BCCB0;
          symmetry = B_symmetry BCCB0
      in if is_integer nblocks \<noteq> None then Inl ValueError
         else if is_integer npoints_per_block \<noteq> None then Inl ValueError
         else if int (length c0) \<noteq> 4 * nblocks * npoints_per_block then Inl ValueError
         else if symmetry \<notin> set [''skew-skew'', ''skew-symm'', ''symm-skew'', ''symm-symm'',
                                  ''gene-symm'', ''symm-gene'', ''gene-skew'', ''skew-gene'',
                                  ''gene-gene'']
         then Inl ValueError
         else if ordering' \<notin> set [''row'', ''column''] then Inl ValueError
         else
           (let G = (if ordering' = ''row''
                     then reshape c0 (nat (2 * nblocks)) (nat (2 * npoints_per_block))
                     else transpose2
                            (reshape c0 (nat (2 * nblocks)) (nat (2 * npoints_per_block))));
                L = map (map (\<lambda>z. complex_of_real (sqrt (real_of_int
                                (4 * nblocks * npoints_per_block))) * z))
                      (fft2 (map (map complex_of_real) G))
            in Inr \<lparr>eigenvalues = L, E_ordering = ordering', E_nblocks = nblocks,
                    E_npoints_per_block = npoints_per_block, E_symmetry = symmetry\<rparr>))"

section \<open>transposition\_factor\<close>

definition transposition_factor :: "string \<Rightarrow> error + int" where
  "transposition_factor symmetry =
     (if symmetry \<notin> set [''skew-skew'', ''skew-symm'', ''symm-skew'', ''symm-symm'']
      then Inl ValueError
      else Inr (the (map_of [(''skew-skew'', 1), (''skew-symm'', - 1),
                             (''symm-skew'', - 1), (''symm-symm'', 1)] symmetry)))"

section \<open>product\_BCCB\_vector\<close>

text \<open>
  Modelled from the spec: \<open>check.is_array(x, ndim=2, shape=(rows, cols))\<close> fails unless the
  array has exactly this shape.
\<close>

definition has_shape :: "'a list list \<Rightarrow> int \<Rightarrow> int \<Rightarrow> bool" where
  "has_shape x rows cols = (int (length x) = rows \<and> list_all (\<lambda>r. int (length r) = cols) x)"

text \<open>
  The block under \<open>if check_input == True\<close>.  In the source it also binds the local names
  \<open>L\<close>, \<open>ordering\<close>, \<open>nblocks\<close>, \<open>npoints_per_block\<close> and \<open>symmetry\<close>, which therefore are
  its result here.
\<close>

definition product_BCCB_vector_checks ::
  "BCCB_eigen \<Rightarrow> real list \<Rightarrow> error + (complex list list \<times> string \<times> int \<times> int)" where
  "product_BCCB_vector_checks BCCB_eigen v =
     (let L = eigenvalues BCCB_eigen;
          ordering' = E_ordering BCCB_eigen;
          nblocks = E_nblocks BCCB_eigen;
          npoints_per_block = E_npoints_per_block BCCB_eigen
      in if ordering' \<notin> set [''row'', ''column''] then Inl ValueError
         else if is_integer nblocks \<noteq> None then Inl ValueError
         else if is_integer npoints_per_block \<noteq> None then Inl ValueError
         else if ordering' = ''row'' \<and> has_shape L (2 * nblocks) (2 * npoints_per_block) = False
         then Inl ValueError
         else if ordering' \<noteq> ''row'' \<and> has_shape L (2 * npoints_per_block) (2 * nblocks) = False
         then Inl ValueError
         else if int (length v) \<noteq> nblocks * npoints_per_block then Inl ValueError
         else Inr (L, ordering', nblocks, npoints_per_block))"

text \<open>Appending zero columns and zero rows (\<open>np.hstack\<close> and \<open>np.vstack\<close> with \<open>np.zeros\<close>).\<close>

definition zero_pad :: "real list list \<Rightarrow> nat \<Rightarrow> nat \<Rightarrow> real list list" where
  "zero_pad V more_cols more_rows =
     map (\<lambda>r. r @ replicate more_cols 0) V
       @ replicate more_rows (replicate (shape1 V + more_cols) 0)"

definition hadamard :: "complex list list \<Rightarrow> complex list list \<Rightarrow> complex list list" where
  "hadamard A B = map2 (map2 (*)) A B"

text \<open>
  The part of the function after the checks.  When \<open>check_input\<close> is not True the local
  names were never bound, and the first statement that reads \<open>ordering\<close> raises
  UnboundLocalError.
\<close>

definition product_BCCB_vector :: "BCCB_eigen \<Rightarrow> real list \<Rightarrow> bool \<Rightarrow> error + real list" where
  "product_BCCB_vector BCCB_eigen v check_input =
     (case (if check_input then map_sum id Some (product_BCCB_vector_checks BCCB_eigen v)
            else Inr None) of
        Inl e \<Rightarrow> Inl e
      | Inr None \<Rightarrow> Inl UnboundLocalError
      | Inr (Some (L, ordering', nblocks, npoints_per_block)) \<Rightarrow>
          (let Q = nat nblocks; P = nat npoints_per_block;
               V = (if ordering' = ''row''
                    then zero_pad (reshape v Q P) P Q
                    else zero_pad (transpose2 (reshape v Q P)) Q P);
               H = hadamard L (fft2 (map (map complex_of_real) V));
               w = (if ordering' = ''row''
                    then concat (map (\<lambda>r. map Re (take P r)) (take Q (ifft2 H)))
                    else concat (transpose2 (map (\<lambda>r. map Re (take Q r)) (take P (ifft2 H)))))
           in Inr w))"

section \<open>The signatures of the public functions\<close>



section \<open>Notions used in the statements\<close>

text \<open>
  The block circulant matrix with circulant blocks whose first column is \<open>c0\<close>, read as a
  \<open>2 Q \<times> 2 P\<close> grid, has the entry \<open>c0[((p - m) mod 2 Q) * 2 P + ((q - n) mod 2 P)]\<close> in
  row \<open>(p, q)\<close> and column \<open>(m, n)\<close>.  \<open>embedded_product\<close> multiplies its top-left quadrant
  (rows and columns with \<open>p, m < Q\<close> and \<open>q, n < P\<close>) by a vector of length \<open>Q * P\<close>.
\<close>

definition embedded_product :: "real list \<Rightarrow> nat \<Rightarrow> nat \<Rightarrow> real list \<Rightarrow> real list" where
  "embedded_product c0 Q P v =
     map (\<lambda>r. \<Sum>m<Q. \<Sum>n<P.
            c0 ! (nat ((int (r div P) - int m) mod int (2 * Q)) * (2 * P)
                  + nat ((int (r mod P) - int n) mod int (2 * P)))
            * v ! (m * P + n)) [0..<Q * P]"

text \<open>
  The sign that a symmetry tag puts on the reflected part: \<open>-1\<close> for \<open>skew\<close>, \<open>+1\<close>
  otherwise.  A Toeplitz block with first column \<open>column\<close> and this sign has the entry
  \<open>column[i - j]\<close> on and below the diagonal and \<open>s * column[j - i]\<close> above it; the block
  Toeplitz matrix repeats the rule on the level of the blocks.
\<close>

definition symmetry_sign :: "string \<Rightarrow> real" where
  "symmetry_sign symmetry = (if symmetry = ''skew'' then - 1 else 1)"

definition toeplitz_entry :: "real \<Rightarrow> real list \<Rightarrow> nat \<Rightarrow> nat \<Rightarrow> real" where
  "toeplitz_entry s column i j = (if j \<le> i then column ! (i - j) else s * column ! (j - i))"

definition BTTB_entry ::
  "real \<Rightarrow> real \<Rightarrow> real list list \<Rightarrow> nat \<Rightarrow> nat \<Rightarrow> nat \<Rightarrow> nat \<Rightarrow> real" where
  "BTTB_entry s_structure s_blocks columns I i J j =
     (if J \<le> I then toeplitz_entry s_blocks (columns ! (I - J)) i j
      else s_structure * toeplitz_entry s_blocks (columns ! (J - I)) i j)"

text \<open>
  The pieces that \<open>embedding_BCCB_first_column\<close> concatenates, with the signs of the two
  symmetries as parameters.
\<close>

definition embedding_pieces :: "real \<Rightarrow> real \<Rightarrow> real list list \<Rightarrow> nat \<Rightarrow> real list list" where
  "embedding_pieces s_structure s_blocks b_parts P =
     map (\<lambda>bi. bi @ [0] @ map ((*) s_blocks) (rev (tl bi))) b_parts
     @ [replicate (2 * P) 0]
     @ map (\<lambda>bi. map ((*) s_structure) bi @ [0] @ map ((*) (s_structure * s_blocks)) (rev (tl bi)))
         (rev (tl b_parts))"

definition toeplitz_block :: "real \<Rightarrow> real list \<Rightarrow> real list list" where
  "toeplitz_block s column =
     map (\<lambda>i. map (\<lambda>j. toeplitz_entry s column i j) [0..<length column]) [0..<length column]"

definition BTTB_matrix :: "real \<Rightarrow> real \<Rightarrow> real list list \<Rightarrow> nat \<Rightarrow> nat \<Rightarrow> real list list" where
  "BTTB_matrix s_structure s_blocks columns Q P =
     map (\<lambda>r. map (\<lambda>c. BTTB_entry s_structure s_blocks columns (r div P) (r mod P)
                        (c div P) (c mod P)) [0..<Q * P]) [0..<Q * P]"

text \<open>
  The fast product as the functions are meant to be chained: the first column from
  \<open>embedding_BCCB_first_column\<close>, its eigenvalues from \<open>eigenvalues_BCCB\<close>, and the
  product from \<open>product_BCCB_vector\<close> with its default \<open>check_input=True\<close>.
\<close>

definition fast_product ::
  "real list \<Rightarrow> int \<Rightarrow> int \<Rightarrow> string \<Rightarrow> string \<Rightarrow> real list \<Rightarrow> error + real list" where
  "fast_product b0 nblocks npoints_per_block symmetry ordering' v =
     (case embedding_BCCB_first_column b0 nblocks npoints_per_block symmetry of
        Inl e \<Rightarrow> Inl e
      | Inr BCCB0 \<Rightarrow>
          (case eigenvalues_BCCB BCCB0 ordering' of
             Inl e \<Rightarrow> Inl e
           | Inr BCCB_eigen \<Rightarrow> product_BCCB_vector BCCB_eigen v True))"

text \<open>The fast product multiplied by the transposition factor of the symmetry.\<close>

definition transposed_fast_product ::
  "real list \<Rightarrow> int \<Rightarrow> int \<Rightarrow> string \<Rightarrow> string \<Rightarrow> real list \<Rightarrow> error + real list" where
  "transposed_fast_product b0 nblocks npoints_per_block symmetry ordering' v =
     (case transposition_factor symmetry of
        Inl e \<Rightarrow> Inl e
      | Inr factor \<Rightarrow>
          (case fast_product b0 nblocks npoints_per_block symmetry ordering' v of
             Inl e \<Rightarrow> Inl e
           | Inr w \<Rightarrow> Inr (map (\<lambda>x. real_of_int factor * x) w)))"

text \<open>
  The entries that a skew-symmetric pattern forces to vanish: with a skew-symmetric
  structure the diagonal block is its own negative transpose off the diagonal, so the
  first generating column is zero after its first element; with skew-symmetric blocks the
  diagonals of the off-diagonal blocks vanish, so every later generating column starts with
  zero; the very first element vanishes when exactly one of the two symmetries is skew.
\<close>

definition skew_zero_pattern :: "string \<Rightarrow> string \<Rightarrow> real list list \<Rightarrow> bool" where
  "skew_zero_pattern symmetry_structure symmetry_blocks columns =
     ((symmetry_structure = ''symm'' \<or> list_all (\<lambda>x. x = 0) (tl (columns ! 0)))
      \<and> (symmetry_blocks = ''symm'' \<or> list_all (\<lambda>c. c ! 0 = 0) (tl columns))
      \<and> (symmetry_structure = symmetry_blocks \<or> columns ! 0 ! 0 = 0))"

text \<open>
  The sign that relates entry \<open>(r, c)\<close> of a skew-symmetric block Toeplitz matrix of
  skew-symmetric blocks of order \<open>P\<close> to its mirror entry \<open>(c, r)\<close>: one factor \<open>-1\<close> when
  the two indices lie in different blocks, one when they differ inside their blocks.
\<close>

definition mirror_sign :: "nat \<Rightarrow> nat \<Rightarrow> nat \<Rightarrow> real" where
  "mirror_sign P r c =
     (if r div P = c div P then 1 else - 1) * (if r mod P = c mod P then 1 else - 1)"

text \<open>
  The circulant matrix with first column \<open>C\<close>, by the index rule: entry \<open>(i, j)\<close> is
  \<open>C[(i - j) mod n]\<close>; and the top-left \<open>P \<times> P\<close> quadrant of a matrix.
\<close>

definition circulant_of :: "real list \<Rightarrow> real list list" where
  "circulant_of C =
     map (\<lambda>i. map (\<lambda>j. C ! nat ((int i - int j) mod int (length C))) [0..<length C])
       [0..<length C]"

definition top_left :: "nat \<Rightarrow> 'a list list \<Rightarrow> 'a list list" where
  "top_left P M = map (take P) (take P M)"

section \<open>Auxiliary facts about the array operations\<close>

lemma upt_2: "[0..<2] = [0, 1]"
  by (simp add: upt_rec)

lemma replicate_4: "replicate 4 x = [x, x, x, x]"
  by (simp add: numeral_eq_Suc)

lemma length_reshape [simp]: "length (reshape a r c) = r"
  by (simp add: reshape_def)

lemma nth_reshape: "i < r \<Longrightarrow> reshape a r c ! i = take c (drop (i * c) a)"
  by (simp add: reshape_def)

lemma length_reshape_row:
  assumes "length a = r * c" "i < r"
  shows "length (reshape a r c ! i) = c"
proof -
  have "Suc i \<le> r" using assms by simp
  then have "Suc i * c \<le> r * c" by (rule mult_le_mono1)
  then have "c \<le> r * c - i * c" by simp
  then show ?thesis using assms by (simp add: nth_reshape)
qed

lemma reshape_nth_nth:
  assumes "length a = r * c" "i < r" "j < c"
  shows "reshape a r c ! i ! j = a ! (i * c + j)"
proof -
  have "Suc i \<le> r" using assms by simp
  then have "Suc i * c \<le> r * c" by (rule mult_le_mono1)
  then have "i * c + j < length a" using assms by simp
  then show ?thesis using assms by (simp add: nth_reshape)
qed

lemma shape1_nth0: "x \<noteq> [] \<Longrightarrow> shape1 x = length (x ! 0)"
  by (cases x) (simp_all add: shape1_def)

lemma shape1_reshape:
  assumes "length a = r * c" "0 < r"
  shows "shape1 (reshape a r c) = c"
proof -
  have "reshape a r c \<noteq> []" using assms(2) by (simp add: reshape_def)
  then have "shape1 (reshape a r c) = length (reshape a r c ! 0)"
    by (rule shape1_nth0)
  then show ?thesis using length_reshape_row[OF assms(1), of 0] assms(2) by simp
qed

lemma length_concat_uniform:
  "list_all (\<lambda>x. length x = n) xss \<Longrightarrow> length (concat xss) = length xss * n"
  by (induction xss) simp_all

lemma nth_concat_uniform:
  "list_all (\<lambda>x. length x = n) xss \<Longrightarrow> i < length xss \<Longrightarrow> j < n
   \<Longrightarrow> concat xss ! (i * n + j) = xss ! i ! j"
proof (induction xss arbitrary: i)
  case Nil
  then show ?case by simp
next
  case (Cons x xss)
  show ?case
  proof (cases i)
    case 0
    then show ?thesis using Cons.prems by (simp add: nth_append)
  next
    case (Suc i')
    have "concat (x # xss) ! (i * n + j) = concat xss ! (i' * n + j)"
      using Cons.prems Suc by (simp add: nth_append)
    also have "\<dots> = xss ! i' ! j"
      using Cons.IH[of i'] Cons.prems Suc by simp
    finally show ?thesis using Suc by simp
  qed
qed

lemma reshape_concat_uniform:
  assumes "list_all (\<lambda>x. length x = n) xss"
  shows "reshape (concat xss) (length xss) n = xss"
proof (rule nth_equalityI)
  show "length (reshape (concat xss) (length xss) n) = length xss" by simp
next
  fix i assume "i < length (reshape (concat xss) (length xss) n)"
  then have i: "i < length xss" by simp
  have len: "length (concat xss) = length xss * n"
    using assms by (rule length_concat_uniform)
  have li: "length (xss ! i) = n" using assms i by (simp add: list_all_length)
  show "reshape (concat xss) (length xss) n ! i = xss ! i"
  proof (rule nth_equalityI)
    show "length (reshape (concat xss) (length xss) n ! i) = length (xss ! i)"
      using length_reshape_row[OF len i] li by simp
  next
    fix j assume "j < length (reshape (concat xss) (length xss) n ! i)"
    then have j: "j < n" using length_reshape_row[OF len i] by simp
    show "reshape (concat xss) (length xss) n ! i ! j = xss ! i ! j"
      using reshape_nth_nth[OF len i j] nth_concat_uniform[OF assms i j] by simp
  qed
qed

section \<open>The concrete scenario of embedding\_BCCB\_first\_column\<close>

text \<open>
  Claim C6, as the spec states it: with \<open>nblocks = 1\<close>, \<open>npoints_per_block = 2\<close>, symmetry
  \<open>symm-symm\<close> and \<open>b0 = [2, 1]\<close> the first column would be \<open>[2, 1, 0, 1, 0, 0, 2, 1]\<close>.
  The function does not return this column.
\<close>

theorem C6_counterexample:
  "map_sum id first_column (embedding_BCCB_first_column [2, 1] 1 2 ''symm-symm'')
     \<noteq> Inr [2, 1, 0, 1, 0, 0, 2, 1]"
  by (simp add: embedding_BCCB_first_column_def is_integer_def split_def reshape_def
      numeral_eq_Suc)

text \<open>
  Claim C6, amended: with \<open>nblocks = 1\<close>, \<open>npoints_per_block = 2\<close>, symmetry \<open>symm-symm\<close> and
  \<open>b0 = [2, 1]\<close> the function returns a first column of length 8 equal to
  \<open>[2, 1, 0, 1, 0, 0, 0, 0]\<close>: the forward block \<open>[2, 1, 0, 1]\<close> and the zero spacer of
  length \<open>2 * npoints_per_block = 4\<close>; with a single block there is no backward block.
\<close>

theorem C6_first_column:
  "embedding_BCCB_first_column [2, 1] 1 2 ''symm-symm'' =
     Inr \<lparr>first_column = [2, 1, 0, 1, 0, 0, 0, 0], B_nblocks = 1,
           B_npoints_per_block = 2, B_symmetry = ''symm-symm''\<rparr>
   \<and> length [2, 1, 0, 1, 0, 0, 0, 0 :: real] = 8"
  by (simp add: embedding_BCCB_first_column_def is_integer_def split_def reshape_def
      numeral_eq_Suc)

section \<open>BCCB\_from\_BTTB raises on every table of columns\<close>

lemma sequence_Cons_Inl: "sequence (Inl e # rs) = Inl e"
  by simp

lemma call_one_argument: "call_Circulant_from_Toeplitz [Vec column] = Inl TypeError"
  by (simp add: call_Circulant_from_Toeplitz_def)

lemma call_two_arguments: "call_Circulant_from_Toeplitz [Vec column, Vec row] = Inl TypeError"
  by (simp add: call_Circulant_from_Toeplitz_def)

text \<open>
  Whatever the symmetries and the flags: once the validation is passed or switched off,
  a table with at least one column and no rows makes the first call of
  \<open>Circulant_from_Toeplitz\<close> raise TypeError.
\<close>

lemma BCCB_from_BTTB_TypeError:
  assumes "columns \<noteq> []"
    and "check_input = False
         \<or> BTTB_metadata symmetry_structure symmetry_blocks nblocks columns None = None"
  shows "BCCB_from_BTTB symmetry_structure symmetry_blocks nblocks columns None full check_input
         = Inl TypeError"
proof -
  obtain c cs where cols: "columns = c # cs" using assms(1) by (cases columns) auto
  have "sequence (map (\<lambda>column. call_Circulant_from_Toeplitz [Vec column]) columns)
        = Inl TypeError"
    by (simp add: cols call_one_argument)
  then show ?thesis using assms(2) by (auto simp: BCCB_from_BTTB_def)
qed

text \<open>
  Claim C2 says that \<open>BCCB_from_BTTB\<close> returns the dense embedding matrix when
  \<open>full = True\<close> and its first column when \<open>full = False\<close>.  On the valid symmetric
  specification with the single generating column \<open>[2, 1]\<close> the function raises TypeError
  for both values of \<open>full\<close>, and so it does on a valid generic specification with a row.
\<close>

theorem C2_BCCB_from_BTTB_raises:
  "BCCB_from_BTTB ''symm'' ''symm'' 1 [[2, 1]] None False True = Inl TypeError
   \<and> BCCB_from_BTTB ''symm'' ''symm'' 1 [[2, 1]] None True True = Inl TypeError
   \<and> BCCB_from_BTTB ''gene'' ''gene'' 1 [[2, 1]] (Some [[3]]) False True = Inl TypeError"
  by (simp add: BCCB_from_BTTB_def BTTB_metadata_def rectangular_def shape1_def
      call_Circulant_from_Toeplitz_def)

text \<open>
  Claim C3 compares the first column of \<open>embedding_BCCB_first_column\<close> with that of
  \<open>BCCB_from_BTTB(..., full=False)\<close>.  For \<open>b0 = [2, 1, 3, 4]\<close>, two blocks of two points
  and symmetry \<open>skew-symm\<close> the former returns a column, the latter raises TypeError on the
  specification with the generating columns \<open>[2, 1]\<close> and \<open>[3, 4]\<close>.
\<close>

theorem C3_compact_path_has_no_counterpart:
  "map_sum id first_column (embedding_BCCB_first_column [2, 1, 3, 4] 2 2 ''skew-symm'')
     = Inr [2, 1, 0, 1, 3, 4, 0, 4, 0, 0, 0, 0, - 3, - 4, 0, - 4]
   \<and> BCCB_from_BTTB ''skew'' ''symm'' 2 [[2, 1], [3, 4]] None False True = Inl TypeError"
  by (simp add: embedding_BCCB_first_column_def is_integer_def split_def reshape_def
      upt_2 replicate_4 BCCB_from_BTTB_def BTTB_metadata_def rectangular_def shape1_def
      call_Circulant_from_Toeplitz_def)

section \<open>The discrete convolution theorem\<close>

lemma cis_eq_1_imp:
  assumes "cis x = 1" shows "\<exists>n::int. x = of_int n * (2 * pi)"
proof -
  have "cos x = 1" using assms by (metis cis.simps(1) one_complex.simps(1))
  then obtain n :: int where "x = of_int n * 2 * pi" using cos_one_2pi_int by blast
  then show ?thesis by (intro exI[of _ n]) simp
qed

lemma root_of_unity_sum:
  fixes N :: nat and d :: int
  assumes "0 < N"
  shows "(\<Sum>k<N. cis (2 * pi * (real k * real_of_int d / real N)))
         = (if int N dvd d then of_nat N else 0)"
proof -
  define z where "z = cis (2 * pi * real_of_int d / real N)"
  have pow: "cis (2 * pi * (real k * real_of_int d / real N)) = z ^ k" for k
    unfolding z_def DeMoivre by (simp add: algebra_simps)
  have zN: "z ^ N = 1"
  proof -
    have "z ^ N = cis (2 * pi * real_of_int d)"
      unfolding z_def DeMoivre using assms by simp
    also have "\<dots> = 1" by (rule cis_multiple_2pi) simp
    finally show ?thesis .
  qed
  have sum_eq: "(\<Sum>k<N. cis (2 * pi * (real k * real_of_int d / real N))) = (\<Sum>k<N. z ^ k)"
    by (simp only: pow)
  show ?thesis unfolding sum_eq
  proof (cases "int N dvd d")
    case True
    then obtain c where c: "d = int N * c" by (auto simp: dvd_def)
    have "2 * pi * real_of_int d / real N = 2 * pi * real_of_int c"
      unfolding c using assms by simp
    then have "z = cis (2 * pi * real_of_int c)"
      unfolding z_def by (simp only:)
    also have "\<dots> = 1" by (rule cis_multiple_2pi) simp
    finally have "z = 1" .
    then show "(\<Sum>k<N. z ^ k) = (if int N dvd d then of_nat N else 0)" using True by simp
  next
    case False
    have "z \<noteq> 1"
    proof
      assume "z = 1"
      then obtain n :: int where n: "2 * pi * real_of_int d / real N = of_int n * (2 * pi)"
        unfolding z_def using cis_eq_1_imp by blast
      then have "real_of_int d = real_of_int (n * int N)"
        using assms by (simp add: field_simps)
      then have "d = n * int N" by (simp only: of_int_eq_iff)
      then show False using False by simp
    qed
    then have "(\<Sum>k<N. z ^ k) = (z ^ N - 1) / (z - 1)" by (rule geometric_sum)
    then show "(\<Sum>k<N. z ^ k) = (if int N dvd d then of_nat N else 0)"
      using False zN by simp
  qed
qed


lemma dvd_diff_iff_mod:
  fixes N n :: nat and a :: int
  assumes "n < N"
  shows "int N dvd a - int n \<longleftrightarrow> n = nat (a mod int N)"
proof
  assume "int N dvd a - int n"
  then have "a mod int N = int n mod int N" by (simp add: mod_eq_dvd_iff)
  then show "n = nat (a mod int N)" using assms by simp
next
  assume n: "n = nat (a mod int N)"
  have "0 < int N" using assms by simp
  then have "0 \<le> a mod int N" by simp
  then have "int n = a mod int N" using n by simp
  then show "int N dvd a - int n" by (simp add: dvd_minus_mod)
qed

lemma dft1_shift_inverse:
  fixes g :: "nat \<Rightarrow> complex" and N :: nat and a :: int
  assumes "0 < N"
  shows "(\<Sum>k<N. (\<Sum>n<N. g n * cis (- (2 * pi * (real k * real n / real N))))
                 * cis (2 * pi * (real k * real_of_int a / real N)))
         = of_nat N * g (nat (a mod int N))"
proof -
  define E where "E k n = cis (- (2 * pi * (real k * real n / real N)))" for k n
  define F where "F k = cis (2 * pi * (real k * real_of_int a / real N))" for k
  define D where "D n k = cis (2 * pi * (real k * real_of_int (a - int n) / real N))" for n k
  have ker: "E k n * F k = D n k" for k n
    unfolding E_def F_def D_def cis_mult
    by (rule arg_cong[where f = cis]) (simp add: right_diff_distrib diff_divide_distrib)
  have D_sum: "(\<Sum>k<N. D n k) = (if int N dvd a - int n then of_nat N else 0)" for n
    unfolding D_def by (rule root_of_unity_sum[OF assms])
  have "(\<Sum>k<N. (\<Sum>n<N. g n * E k n) * F k) = (\<Sum>k<N. \<Sum>n<N. g n * D n k)"
    by (simp only: sum_distrib_right mult.assoc ker)
  also have "\<dots> = (\<Sum>n<N. \<Sum>k<N. g n * D n k)"
    by (rule sum.swap)
  also have "\<dots> = (\<Sum>n<N. g n * (\<Sum>k<N. D n k))"
    by (simp only: sum_distrib_left)
  also have "\<dots> = (\<Sum>n<N. g n * (if int N dvd a - int n then of_nat N else 0))"
    by (simp only: D_sum)
  also have "\<dots> = (\<Sum>n<N. if n = nat (a mod int N) then of_nat N * g n else 0)"
    by (rule sum.cong) (simp_all add: dvd_diff_iff_mod)
  also have "\<dots> = of_nat N * g (nat (a mod int N))"
  proof -
    have "nat (a mod int N) < N" using assms by (simp add: nat_less_iff)
    then show ?thesis by (simp add: sum.delta)
  qed
  finally show ?thesis unfolding E_def F_def .
qed

lemma dft1_convolution:
  fixes g v :: "nat \<Rightarrow> complex" and N p :: nat
  assumes "0 < N"
  shows "(\<Sum>k<N. (\<Sum>n<N. g n * cis (- (2 * pi * (real k * real n / real N))))
                 * (\<Sum>n<N. v n * cis (- (2 * pi * (real k * real n / real N))))
                 * cis (2 * pi * (real k * real p / real N)))
         = of_nat N * (\<Sum>n<N. v n * g (nat ((int p - int n) mod int N)))"
proof -
  define E where "E k n = cis (- (2 * pi * (real k * real n / real N)))" for k n
  define F where "F k = cis (2 * pi * (real k * real p / real N))" for k
  define D where "D n k = cis (2 * pi * (real k * real_of_int (int p - int n) / real N))" for n k
  define G where "G k = (\<Sum>n<N. g n * E k n)" for k
  have ker: "E k n * F k = D n k" for k n
    unfolding E_def F_def D_def cis_mult
    by (rule arg_cong[where f = cis]) (simp add: right_diff_distrib diff_divide_distrib)
  have inv: "(\<Sum>k<N. G k * D n k) = of_nat N * g (nat ((int p - int n) mod int N))" for n
    unfolding G_def D_def E_def by (rule dft1_shift_inverse[OF assms])
  have "(\<Sum>k<N. G k * (\<Sum>n<N. v n * E k n) * F k) = (\<Sum>k<N. \<Sum>n<N. v n * (G k * D n k))"
  proof (rule sum.cong[OF refl])
    fix k
    have "G k * (\<Sum>n<N. v n * E k n) * F k = (\<Sum>n<N. G k * (v n * E k n) * F k)"
      by (simp only: sum_distrib_left sum_distrib_right)
    also have "\<dots> = (\<Sum>n<N. v n * (G k * (E k n * F k)))"
      by (rule sum.cong) (simp_all only: mult_ac)
    finally show "G k * (\<Sum>n<N. v n * E k n) * F k = (\<Sum>n<N. v n * (G k * D n k))"
      by (simp only: ker)
  qed
  also have "\<dots> = (\<Sum>n<N. \<Sum>k<N. v n * (G k * D n k))"
    by (rule sum.swap)
  also have "\<dots> = (\<Sum>n<N. v n * (\<Sum>k<N. G k * D n k))"
    by (simp only: sum_distrib_left)
  also have "\<dots> = (\<Sum>n<N. v n * (of_nat N * g (nat ((int p - int n) mod int N))))"
    by (simp only: inv)
  also have "\<dots> = of_nat N * (\<Sum>n<N. v n * g (nat ((int p - int n) mod int N)))"
    by (simp only: sum_distrib_left mult.left_commute)
  finally show ?thesis unfolding G_def E_def F_def .
qed


lemma dft2_convolution:
  fixes G V :: "nat \<Rightarrow> nat \<Rightarrow> complex" and M N p q :: nat
  assumes "0 < M" "0 < N"
  shows "(\<Sum>k<M. \<Sum>l<N.
            (\<Sum>m<M. \<Sum>n<N. G m n *
               (cis (- (2 * pi * (real k * real m / real M)))
                * cis (- (2 * pi * (real l * real n / real N)))))
          * (\<Sum>m<M. \<Sum>n<N. V m n *
               (cis (- (2 * pi * (real k * real m / real M)))
                * cis (- (2 * pi * (real l * real n / real N)))))
          * (cis (2 * pi * (real k * real p / real M))
             * cis (2 * pi * (real l * real q / real N))))
         = of_nat (M * N) *
           (\<Sum>m<M. \<Sum>n<N. V m n *
              G (nat ((int p - int m) mod int M)) (nat ((int q - int n) mod int N)))"
proof -
  define E1 where "E1 k m = cis (- (2 * pi * (real k * real m / real M)))" for k m
  define E2 where "E2 l n = cis (- (2 * pi * (real l * real n / real N)))" for l n
  define F1 where "F1 k = cis (2 * pi * (real k * real p / real M))" for k
  define F2 where "F2 l = cis (2 * pi * (real l * real q / real N))" for l
  define Gh where "Gh l m = (\<Sum>n<N. G m n * E2 l n)" for l m
  define Vh where "Vh l m = (\<Sum>n<N. V m n * E2 l n)" for l m
  define pm where "pm m = nat ((int p - int m) mod int M)" for m
  define qn where "qn n = nat ((int q - int n) mod int N)" for n
  have rowG: "(\<Sum>m<M. \<Sum>n<N. G m n * (E1 k m * E2 l n)) = (\<Sum>m<M. Gh l m * E1 k m)" for k l
    unfolding Gh_def by (simp only: sum_distrib_right) (simp only: mult_ac)
  have rowV: "(\<Sum>m<M. \<Sum>n<N. V m n * (E1 k m * E2 l n)) = (\<Sum>m<M. Vh l m * E1 k m)" for k l
    unfolding Vh_def by (simp only: sum_distrib_right) (simp only: mult_ac)
  have conv_k: "(\<Sum>k<M. (\<Sum>m<M. Gh l m * E1 k m) * (\<Sum>m<M. Vh l m * E1 k m) * F1 k)
                = of_nat M * (\<Sum>m<M. Vh l m * Gh l (pm m))" for l
    unfolding E1_def F1_def pm_def by (rule dft1_convolution[OF assms(1)])
  have conv_l: "(\<Sum>l<N. Gh l m' * Vh l m * F2 l) = of_nat N * (\<Sum>n<N. V m n * G m' (qn n))" for m m'
    unfolding Gh_def Vh_def E2_def F2_def qn_def by (rule dft1_convolution[OF assms(2)])
  have "(\<Sum>k<M. \<Sum>l<N.
            (\<Sum>m<M. \<Sum>n<N. G m n * (E1 k m * E2 l n))
          * (\<Sum>m<M. \<Sum>n<N. V m n * (E1 k m * E2 l n))
          * (F1 k * F2 l))
        = (\<Sum>k<M. \<Sum>l<N.
            ((\<Sum>m<M. Gh l m * E1 k m) * (\<Sum>m<M. Vh l m * E1 k m) * F1 k) * F2 l)"
    by (simp only: rowG rowV mult.assoc)
  also have "\<dots> = (\<Sum>l<N. \<Sum>k<M.
            ((\<Sum>m<M. Gh l m * E1 k m) * (\<Sum>m<M. Vh l m * E1 k m) * F1 k) * F2 l)"
    by (rule sum.swap)
  also have "\<dots> = (\<Sum>l<N. (of_nat M * (\<Sum>m<M. Vh l m * Gh l (pm m))) * F2 l)"
    by (simp only: sum_distrib_right[symmetric] conv_k)
  also have "\<dots> = (\<Sum>l<N. \<Sum>m<M. of_nat M * (Gh l (pm m) * Vh l m * F2 l))"
    by (simp only: sum_distrib_left sum_distrib_right) (simp only: mult_ac)
  also have "\<dots> = (\<Sum>m<M. \<Sum>l<N. of_nat M * (Gh l (pm m) * Vh l m * F2 l))"
    by (rule sum.swap)
  also have "\<dots> = (\<Sum>m<M. of_nat M * (of_nat N * (\<Sum>n<N. V m n * G (pm m) (qn n))))"
    by (simp only: sum_distrib_left[symmetric] conv_l)
  also have "\<dots> = of_nat (M * N) * (\<Sum>m<M. \<Sum>n<N. V m n * G (pm m) (qn n))"
    by (simp only: sum_distrib_left[symmetric] of_nat_mult mult.assoc)
  finally show ?thesis unfolding E1_def E2_def F1_def F2_def pm_def qn_def .
qed

section \<open>The transforms of the model and their product\<close>

lemma length_dft2 [simp]: "length (dft2 d x) = length x"
  by (simp add: dft2_def Let_def)

lemma length_dft2_row: "k < length x \<Longrightarrow> length (dft2 d x ! k) = shape1 x"
  by (simp add: dft2_def Let_def)

lemma dft2_nth_nth:
  "k < length x \<Longrightarrow> l < shape1 x \<Longrightarrow>
   dft2 d x ! k ! l =
     (\<Sum>m<length x. \<Sum>n<shape1 x. x ! m ! n *
        cis (d * (2 * pi * (real k * real m / real (length x) + real l * real n / real (shape1 x)))))
     / complex_of_real (sqrt (real (length x * shape1 x)))"
  by (simp add: dft2_def Let_def)

lemma cis_forward_split:
  "cis (- 1 * (2 * pi * (a + b))) = cis (- (2 * pi * a)) * cis (- (2 * pi * b))"
  unfolding cis_mult by (rule arg_cong[where f = cis]) (simp add: algebra_simps)

lemma cis_backward_split:
  "cis (1 * (2 * pi * (real p * real k / M + real q * real l / N)))
   = cis (2 * pi * (real k * real p / M)) * cis (2 * pi * (real l * real q / N))"
  unfolding cis_mult by (rule arg_cong[where f = cis]) (simp add: algebra_simps)

lemma fft2_nth_nth:
  assumes "k < length x" "l < shape1 x"
  shows "fft2 x ! k ! l =
     (\<Sum>m<length x. \<Sum>n<shape1 x. x ! m ! n *
        (cis (- (2 * pi * (real k * real m / real (length x))))
         * cis (- (2 * pi * (real l * real n / real (shape1 x))))))
     / complex_of_real (sqrt (real (length x * shape1 x)))"
  unfolding fft2_def dft2_nth_nth[OF assms] by (simp only: cis_forward_split)

lemma ifft2_nth_nth:
  assumes "p < length x" "q < shape1 x"
  shows "ifft2 x ! p ! q =
     (\<Sum>k<length x. \<Sum>l<shape1 x. x ! k ! l *
        (cis (2 * pi * (real k * real p / real (length x)))
         * cis (2 * pi * (real l * real q / real (shape1 x)))))
     / complex_of_real (sqrt (real (length x * shape1 x)))"
  unfolding ifft2_def dft2_nth_nth[OF assms] by (simp only: cis_backward_split)

lemma length_hadamard: "length (hadamard A B) = min (length A) (length B)"
  by (simp add: hadamard_def)

lemma hadamard_nth_nth:
  assumes "k < length A" "k < length B" "l < length (A ! k)" "l < length (B ! k)"
  shows "hadamard A B ! k ! l = A ! k ! l * B ! k ! l"
  using assms by (simp add: hadamard_def)

lemma length_hadamard_row:
  assumes "k < length A" "k < length B"
  shows "length (hadamard A B ! k) = min (length (A ! k)) (length (B ! k))"
  using assms by (simp add: hadamard_def)

lemma ifft2_hadamard_fft2:
  fixes Gm Vm :: "complex list list"
  assumes M: "0 < M" and N: "0 < N"
    and lG: "length Gm = M" and lV: "length Vm = M"
    and sG: "shape1 Gm = N" and sV: "shape1 Vm = N"
    and p: "p < M" and q: "q < N"
  shows "ifft2 (hadamard (map (map (\<lambda>z. complex_of_real (sqrt (real (M * N))) * z)) (fft2 Gm))
                  (fft2 Vm)) ! p ! q
         = (\<Sum>m<M. \<Sum>n<N. Vm ! m ! n *
              Gm ! nat ((int p - int m) mod int M) ! nat ((int q - int n) mod int N))"
proof -
  define s where "s = complex_of_real (sqrt (real (M * N)))"
  define SG where "SG k l = (\<Sum>m<M. \<Sum>n<N. Gm ! m ! n *
        (cis (- (2 * pi * (real k * real m / real M)))
         * cis (- (2 * pi * (real l * real n / real N)))))" for k l
  define SV where "SV k l = (\<Sum>m<M. \<Sum>n<N. Vm ! m ! n *
        (cis (- (2 * pi * (real k * real m / real M)))
         * cis (- (2 * pi * (real l * real n / real N)))))" for k l
  define H where "H = hadamard (map (map (\<lambda>z. s * z)) (fft2 Gm)) (fft2 Vm)"
  have s0: "s \<noteq> 0" using M N by (simp add: s_def)
  have ss: "s * s = of_nat (M * N)"
  proof -
    have "sqrt (real (M * N)) * sqrt (real (M * N)) = real (M * N)" by simp
    then have "complex_of_real (sqrt (real (M * N)) * sqrt (real (M * N))) = complex_of_real (real (M * N))"
      by (simp only:)
    then show ?thesis unfolding s_def by (simp only: of_real_mult of_real_of_nat_eq)
  qed
  have FG: "fft2 Gm ! k ! l = SG k l / s" if "k < M" "l < N" for k l
    using fft2_nth_nth[of k Gm l] that unfolding SG_def s_def lG sG by simp
  have FV: "fft2 Vm ! k ! l = SV k l / s" if "k < M" "l < N" for k l
    using fft2_nth_nth[of k Vm l] that unfolding SV_def s_def lV sV by simp
  have lenH: "length H = M"
    unfolding H_def by (simp add: length_hadamard fft2_def lG lV)
  have rowH: "length (H ! k) = N" if "k < M" for k
    unfolding H_def using that
    by (simp add: length_hadamard_row fft2_def lG lV length_dft2_row sG sV)
  have H_nth: "H ! k ! l = SG k l * SV k l / s" if "k < M" "l < N" for k l
  proof -
    have "H ! k ! l = (s * fft2 Gm ! k ! l) * fft2 Vm ! k ! l"
      unfolding H_def using that
      by (subst hadamard_nth_nth) (simp_all add: fft2_def lG lV length_dft2_row sG sV)
    then show ?thesis using FG[OF that] FV[OF that] s0 by simp
  qed
  have sH: "shape1 H = N"
  proof -
    have "H \<noteq> []" using lenH M by auto
    then have "shape1 H = length (H ! 0)" by (rule shape1_nth0)
    then show ?thesis using rowH[of 0] M by simp
  qed
  have "ifft2 H ! p ! q =
     (\<Sum>k<M. \<Sum>l<N. H ! k ! l *
        (cis (2 * pi * (real k * real p / real M)) * cis (2 * pi * (real l * real q / real N)))) / s"
    using ifft2_nth_nth[of p H q] p q unfolding lenH sH s_def by simp
  also have "(\<Sum>k<M. \<Sum>l<N. H ! k ! l *
        (cis (2 * pi * (real k * real p / real M)) * cis (2 * pi * (real l * real q / real N))))
     = (\<Sum>k<M. \<Sum>l<N. (SG k l * SV k l *
        (cis (2 * pi * (real k * real p / real M)) * cis (2 * pi * (real l * real q / real N)))) / s)"
    by (intro sum.cong refl) (simp add: H_nth)
  also have "\<dots> = (\<Sum>k<M. \<Sum>l<N. SG k l * SV k l *
        (cis (2 * pi * (real k * real p / real M)) * cis (2 * pi * (real l * real q / real N)))) / s"
    by (simp only: sum_divide_distrib)
  also have "(\<Sum>k<M. \<Sum>l<N. SG k l * SV k l *
        (cis (2 * pi * (real k * real p / real M)) * cis (2 * pi * (real l * real q / real N))))
     = of_nat (M * N) * (\<Sum>m<M. \<Sum>n<N. Vm ! m ! n *
              Gm ! nat ((int p - int m) mod int M) ! nat ((int q - int n) mod int N))"
    unfolding SG_def SV_def
    by (rule dft2_convolution[OF M N, of "\<lambda>m n. Gm ! m ! n" "\<lambda>m n. Vm ! m ! n" p q])
  finally have "ifft2 H ! p ! q = of_nat (M * N) * (\<Sum>m<M. \<Sum>n<N. Vm ! m ! n *
              Gm ! nat ((int p - int m) mod int M) ! nat ((int q - int n) mod int N)) / s / s" .
  also have "\<dots> = (\<Sum>m<M. \<Sum>n<N. Vm ! m ! n *
              Gm ! nat ((int p - int m) mod int M) ! nat ((int q - int n) mod int N))"
  proof -
    have "of_nat (M * N) * X / s / s = X" for X :: complex
    proof -
      have "of_nat (M * N) * X / s / s = (s * s) * X / (s * s)"
        by (simp only: ss divide_divide_eq_left)
      also have "\<dots> = X" using s0 by simp
      finally show ?thesis .
    qed
    then show ?thesis .
  qed
  finally show ?thesis unfolding H_def s_def .
qed

lemma length_transpose2: "length (transpose2 X) = shape1 X"
  by (simp add: transpose2_def)

lemma transpose2_nth:
  "j < shape1 X \<Longrightarrow> transpose2 X ! j = map (\<lambda>r. r ! j) X"
  by (simp add: transpose2_def)

lemma transpose2_nth_nth:
  "j < shape1 X \<Longrightarrow> i < length X \<Longrightarrow> transpose2 X ! j ! i = X ! i ! j"
  by (simp add: transpose2_def)

lemma shape1_transpose2:
  assumes "0 < shape1 X"
  shows "shape1 (transpose2 X) = length X"
proof -
  have "transpose2 X \<noteq> []" using assms by (simp add: transpose2_def)
  then have "shape1 (transpose2 X) = length (transpose2 X ! 0)" by (rule shape1_nth0)
  then show ?thesis using assms by (simp add: transpose2_nth)
qed

lemma length_zero_pad: "length (zero_pad V c r) = length V + r"
  by (simp add: zero_pad_def)

lemma zero_pad_row_length:
  assumes "list_all (\<lambda>row. length row = shape1 V) V" "m < length V + r"
  shows "length (zero_pad V c r ! m) = shape1 V + c"
  using assms by (simp add: zero_pad_def nth_append list_all_length)

lemma zero_pad_nth_nth:
  assumes "list_all (\<lambda>row. length row = shape1 V) V" "m < length V + r" "n < shape1 V + c"
  shows "zero_pad V c r ! m ! n = (if m < length V \<and> n < shape1 V then V ! m ! n else 0)"
  using assms by (simp add: zero_pad_def nth_append list_all_length)

lemma shape1_zero_pad:
  assumes "list_all (\<lambda>row. length row = shape1 V) V" "0 < length V + r"
  shows "shape1 (zero_pad V c r) = shape1 V + c"
proof -
  have "zero_pad V c r \<noteq> []" using assms(2) length_zero_pad[of V c r] by auto
  then have "shape1 (zero_pad V c r) = length (zero_pad V c r ! 0)" by (rule shape1_nth0)
  then show ?thesis using zero_pad_row_length[OF assms(1), of 0 r c] assms(2) by simp
qed

lemma shape1_map_map: "shape1 (map (map f) X) = shape1 X"
  by (cases X) (simp_all add: shape1_def)

lemma sum_restrict_less:
  fixes f :: "nat \<Rightarrow> 'a::comm_monoid_add"
  assumes "Q \<le> M"
  shows "(\<Sum>m<M. if m < Q then f m else 0) = (\<Sum>m<Q. f m)"
proof -
  have "(\<Sum>m<M. if m < Q then f m else 0) = (\<Sum>m\<in>{..<Q}. if m < Q then f m else 0)"
    by (rule sum.mono_neutral_right) (use assms in auto)
  also have "\<dots> = (\<Sum>m<Q. f m)" by (rule sum.cong) simp_all
  finally show ?thesis .
qed

lemma padded_product:
  fixes Gr Vr :: "real list list"
  assumes R: "0 < R" and C: "0 < C"
    and lV: "length Vr = R" and rV: "list_all (\<lambda>row. length row = C) Vr"
    and lG: "length Gr = 2 * R" and rG: "list_all (\<lambda>row. length row = 2 * C) Gr"
    and p: "p < R" and q: "q < C"
  shows "ifft2 (hadamard
             (map (map (\<lambda>z. complex_of_real (sqrt (real (2 * R * (2 * C)))) * z))
                (fft2 (map (map complex_of_real) Gr)))
             (fft2 (map (map complex_of_real) (zero_pad Vr C R)))) ! p ! q
         = complex_of_real (\<Sum>m<R. \<Sum>n<C. Vr ! m ! n *
              Gr ! nat ((int p - int m) mod int (2 * R)) ! nat ((int q - int n) mod int (2 * C)))"
proof -
  define Gm where "Gm = map (map complex_of_real) Gr"
  define Vm where "Vm = map (map complex_of_real) (zero_pad Vr C R)"
  define a where "a m = nat ((int p - int m) mod int (2 * R))" for m
  define b where "b n = nat ((int q - int n) mod int (2 * C))" for n
  have sVr: "shape1 Vr = C"
  proof -
    have "Vr \<noteq> []" using lV R by auto
    then have "shape1 Vr = length (Vr ! 0)" by (rule shape1_nth0)
    then show ?thesis using rV lV R by (simp add: list_all_length)
  qed
  have sGr: "shape1 Gr = 2 * C"
  proof -
    have "Gr \<noteq> []" using lG R by auto
    then have "shape1 Gr = length (Gr ! 0)" by (rule shape1_nth0)
    then show ?thesis using rG lG R by (simp add: list_all_length)
  qed
  have rV': "list_all (\<lambda>row. length row = shape1 Vr) Vr" using rV sVr by simp
  have lGm: "length Gm = 2 * R" by (simp add: Gm_def lG)
  have lVm: "length Vm = 2 * R" by (simp add: Vm_def length_zero_pad lV)
  have sGm: "shape1 Gm = 2 * C" by (simp add: Gm_def shape1_map_map sGr)
  have sVm: "shape1 Vm = 2 * C"
    unfolding Vm_def shape1_map_map using shape1_zero_pad[OF rV', of R C] R sVr by simp
  have a_lt: "a m < 2 * R" for m
    unfolding a_def using R by (simp add: nat_less_iff)
  have b_lt: "b n < 2 * C" for n
    unfolding b_def using C by (simp add: nat_less_iff)
  have Gm_nth: "Gm ! (a m) ! (b n) = complex_of_real (Gr ! (a m) ! (b n))" for m n
    unfolding Gm_def using a_lt[of m] b_lt[of n] lG rG by (simp add: list_all_length)
  have Vm_nth: "Vm ! m ! n = (if m < R then (if n < C then complex_of_real (Vr ! m ! n) else 0) else 0)"
    if "m < 2 * R" "n < 2 * C" for m n
  proof -
    have m': "m < length (zero_pad Vr C R)" using that by (simp add: length_zero_pad lV)
    have "length (zero_pad Vr C R ! m) = 2 * C"
      using zero_pad_row_length[OF rV', of m R C] that sVr lV by simp
    then have "Vm ! m ! n = complex_of_real (zero_pad Vr C R ! m ! n)"
      unfolding Vm_def using m' that by simp
    also have "zero_pad Vr C R ! m ! n = (if m < R \<and> n < C then Vr ! m ! n else 0)"
      using zero_pad_nth_nth[OF rV', of m R n C] that sVr lV by simp
    finally show ?thesis by simp
  qed
  have "ifft2 (hadamard
             (map (map (\<lambda>z. complex_of_real (sqrt (real (2 * R * (2 * C)))) * z)) (fft2 Gm))
             (fft2 Vm)) ! p ! q
        = (\<Sum>m<2 * R. \<Sum>n<2 * C. Vm ! m ! n * Gm ! (a m) ! (b n))"
    unfolding a_def b_def
    by (rule ifft2_hadamard_fft2) (use R C lGm lVm sGm sVm p q in simp_all)
  also have "\<dots> = (\<Sum>m<2 * R. \<Sum>n<2 * C. if m < R
                      then (if n < C
                              then complex_of_real (Vr ! m ! n * Gr ! (a m) ! (b n)) else 0)
                      else 0)"
    by (intro sum.cong refl) (simp add: Vm_nth Gm_nth)
  also have "\<dots> = (\<Sum>m<2 * R. if m < R
                      then (\<Sum>n<2 * C. if n < C
                              then complex_of_real (Vr ! m ! n * Gr ! (a m) ! (b n)) else 0)
                      else 0)"
    by (intro sum.cong refl) simp
  also have "\<dots> = (\<Sum>m<R. \<Sum>n<2 * C. if n < C
                              then complex_of_real (Vr ! m ! n * Gr ! (a m) ! (b n)) else 0)"
    by (rule sum_restrict_less) simp
  also have "\<dots> = (\<Sum>m<R. \<Sum>n<C. complex_of_real (Vr ! m ! n * Gr ! (a m) ! (b n)))"
    by (intro sum.cong refl sum_restrict_less) simp
  also have "\<dots> = complex_of_real (\<Sum>m<R. \<Sum>n<C. Vr ! m ! n * Gr ! (a m) ! (b n))"
    by (simp only: of_real_sum)
  finally show ?thesis unfolding Gm_def Vm_def a_def b_def .
qed

lemma product_grid_shape:
  fixes Gm Vm :: "complex list list"
  assumes lG: "length Gm = M" and lV: "length Vm = M"
    and sG: "shape1 Gm = N" and sV: "shape1 Vm = N"
  shows "length (ifft2 (hadamard (map (map f) (fft2 Gm)) (fft2 Vm))) = M"
    and "k < M \<Longrightarrow> length (ifft2 (hadamard (map (map f) (fft2 Gm)) (fft2 Vm)) ! k) = N"
proof -
  define H where "H = hadamard (map (map f) (fft2 Gm)) (fft2 Vm)"
  have lenH: "length H = M"
    unfolding H_def by (simp add: length_hadamard fft2_def lG lV)
  have rowH: "length (H ! j) = N" if "j < M" for j
    unfolding H_def using that
    by (simp add: length_hadamard_row fft2_def lG lV length_dft2_row sG sV)
  show "length (ifft2 (hadamard (map (map f) (fft2 Gm)) (fft2 Vm))) = M"
    using lenH unfolding H_def ifft2_def by simp
  show "length (ifft2 (hadamard (map (map f) (fft2 Gm)) (fft2 Vm)) ! k) = N" if k: "k < M"
  proof -
    have "H \<noteq> []" using lenH k by auto
    then have "shape1 H = length (H ! 0)" by (rule shape1_nth0)
    then have "shape1 H = N" using rowH[of 0] k by simp
    then show ?thesis using lenH k unfolding H_def ifft2_def by (simp add: length_dft2_row)
  qed
qed

lemma div_mod_less:
  fixes r P Q :: nat
  assumes "r < Q * P"
  shows "r div P < Q" and "r mod P < P"
proof -
  have P: "0 < P" using assms by (cases P) simp_all
  show "r mod P < P" using P by simp
  show "r div P < Q" using assms P by (simp add: less_mult_imp_div_less)
qed

lemma reshape_rows:
  assumes "length a = r * c"
  shows "list_all (\<lambda>row. length row = c) (reshape a r c)"
  unfolding list_all_length using length_reshape_row[OF assms] by simp

lemma nth_concat_div_mod:
  assumes "list_all (\<lambda>x. length x = n) xss" "r < length xss * n"
  shows "concat xss ! r = xss ! (r div n) ! (r mod n)"
proof -
  have "r div n < length xss" "r mod n < n" using div_mod_less[OF assms(2)] by simp_all
  then have "concat xss ! (r div n * n + r mod n) = xss ! (r div n) ! (r mod n)"
    by (rule nth_concat_uniform[OF assms(1)])
  then show ?thesis by simp
qed

lemma row_body:
  fixes c0 v :: "real list"
  assumes Q: "0 < Q" and P: "0 < P"
    and lc: "length c0 = 2 * Q * (2 * P)" and lv: "length v = Q * P"
  shows "concat (map (\<lambda>r. map Re (take P r)) (take Q (ifft2 (hadamard
            (map (map (\<lambda>z. complex_of_real (sqrt (real (2 * Q * (2 * P)))) * z))
               (fft2 (map (map complex_of_real) (reshape c0 (2 * Q) (2 * P)))))
            (fft2 (map (map complex_of_real) (zero_pad (reshape v Q P) P Q)))))))
         = embedded_product c0 Q P v"
proof -
  define Gr where "Gr = reshape c0 (2 * Q) (2 * P)"
  define Vr where "Vr = reshape v Q P"
  define X where "X = ifft2 (hadamard
            (map (map (\<lambda>z. complex_of_real (sqrt (real (2 * Q * (2 * P)))) * z))
               (fft2 (map (map complex_of_real) Gr)))
            (fft2 (map (map complex_of_real) (zero_pad Vr P Q))))"
  define W where "W = map (\<lambda>r. map Re (take P r)) (take Q X)"
  have lG: "length Gr = 2 * Q" by (simp add: Gr_def)
  have rG: "list_all (\<lambda>row. length row = 2 * P) Gr" unfolding Gr_def by (rule reshape_rows[OF lc])
  have sG: "shape1 Gr = 2 * P" unfolding Gr_def using shape1_reshape[OF lc] Q by simp
  have lV: "length Vr = Q" by (simp add: Vr_def)
  have rV: "list_all (\<lambda>row. length row = P) Vr" unfolding Vr_def by (rule reshape_rows[OF lv])
  have sV: "shape1 Vr = P" unfolding Vr_def using shape1_reshape[OF lv] Q by simp
  have rV': "list_all (\<lambda>row. length row = shape1 Vr) Vr" using rV sV by simp
  have sVp: "shape1 (zero_pad Vr P Q) = 2 * P"
    using shape1_zero_pad[OF rV', of Q P] Q sV by simp
  have lX: "length X = 2 * Q"
    unfolding X_def
    by (rule product_grid_shape(1)) (simp_all add: lG lV length_zero_pad shape1_map_map sG sVp)
  have rX: "length (X ! k) = 2 * P" if "k < 2 * Q" for k
    unfolding X_def
    by (rule product_grid_shape(2)[where M = "2 * Q"])
       (simp_all add: lG lV length_zero_pad shape1_map_map sG sVp that)
  have lW: "length W = Q" by (simp add: W_def lX)
  have uW: "list_all (\<lambda>x. length x = P) W"
    unfolding list_all_length W_def using lX rX by simp
  have Xpq: "X ! p ! q = complex_of_real (\<Sum>m<Q. \<Sum>n<P. Vr ! m ! n *
              Gr ! nat ((int p - int m) mod int (2 * Q)) ! nat ((int q - int n) mod int (2 * P)))"
    if "p < Q" "q < P" for p q
    unfolding X_def by (rule padded_product[OF Q P lV rV lG rG that])
  have Wpq: "W ! p ! q = (\<Sum>m<Q. \<Sum>n<P.
            c0 ! (nat ((int p - int m) mod int (2 * Q)) * (2 * P)
                  + nat ((int q - int n) mod int (2 * P)))
            * v ! (m * P + n))" if pq: "p < Q" "q < P" for p q
  proof -
    have "W ! p ! q = Re (X ! p ! q)"
      unfolding W_def using pq lX rX[of p] by simp
    also have "\<dots> = (\<Sum>m<Q. \<Sum>n<P. Vr ! m ! n *
              Gr ! nat ((int p - int m) mod int (2 * Q)) ! nat ((int q - int n) mod int (2 * P)))"
      unfolding Xpq[OF pq] by simp
    also have "\<dots> = (\<Sum>m<Q. \<Sum>n<P.
            c0 ! (nat ((int p - int m) mod int (2 * Q)) * (2 * P)
                  + nat ((int q - int n) mod int (2 * P)))
            * v ! (m * P + n))"
    proof (intro sum.cong refl)
      fix m n assume "m \<in> {..<Q}" "n \<in> {..<P}"
      then have mn: "m < Q" "n < P" by simp_all
      have a: "nat ((int p - int m) mod int (2 * Q)) < 2 * Q" using Q by (simp add: nat_less_iff)
      have b: "nat ((int q - int n) mod int (2 * P)) < 2 * P" using P by (simp add: nat_less_iff)
      show "Vr ! m ! n *
              Gr ! nat ((int p - int m) mod int (2 * Q)) ! nat ((int q - int n) mod int (2 * P))
            = c0 ! (nat ((int p - int m) mod int (2 * Q)) * (2 * P)
                  + nat ((int q - int n) mod int (2 * P))) * v ! (m * P + n)"
        unfolding Vr_def Gr_def reshape_nth_nth[OF lv mn] reshape_nth_nth[OF lc a b]
        by (rule mult.commute)
    qed
    finally show ?thesis .
  qed
  have "concat W = embedded_product c0 Q P v"
  proof (rule nth_equalityI)
    show "length (concat W) = length (embedded_product c0 Q P v)"
      using length_concat_uniform[OF uW] lW by (simp add: embedded_product_def)
  next
    fix r assume "r < length (concat W)"
    then have r: "r < Q * P" using length_concat_uniform[OF uW] lW by simp
    have "concat W ! r = W ! (r div P) ! (r mod P)"
      by (rule nth_concat_div_mod[OF uW]) (simp add: lW r)
    then show "concat W ! r = embedded_product c0 Q P v ! r"
      using Wpq[OF div_mod_less[OF r]] r by (simp add: embedded_product_def)
  qed
  then show ?thesis unfolding W_def X_def Gr_def Vr_def .
qed

lemma transpose2_rows:
  "list_all (\<lambda>row. length row = length X) (transpose2 X)"
  unfolding list_all_length by (simp add: length_transpose2 transpose2_nth)

lemma column_body:
  fixes c0 v :: "real list"
  assumes Q: "0 < Q" and P: "0 < P"
    and lc: "length c0 = 2 * Q * (2 * P)" and lv: "length v = Q * P"
  shows "concat (transpose2 (map (\<lambda>r. map Re (take Q r)) (take P (ifft2 (hadamard
            (map (map (\<lambda>z. complex_of_real (sqrt (real (2 * P * (2 * Q)))) * z))
               (fft2 (map (map complex_of_real) (transpose2 (reshape c0 (2 * Q) (2 * P))))))
            (fft2 (map (map complex_of_real)
               (zero_pad (transpose2 (reshape v Q P)) Q P))))))))
         = embedded_product c0 Q P v"
proof -
  define Gr where "Gr = transpose2 (reshape c0 (2 * Q) (2 * P))"
  define Vr where "Vr = transpose2 (reshape v Q P)"
  define X where "X = ifft2 (hadamard
            (map (map (\<lambda>z. complex_of_real (sqrt (real (2 * P * (2 * Q)))) * z))
               (fft2 (map (map complex_of_real) Gr)))
            (fft2 (map (map complex_of_real) (zero_pad Vr Q P))))"
  define W where "W = map (\<lambda>r. map Re (take Q r)) (take P X)"
  have sc: "shape1 (reshape c0 (2 * Q) (2 * P)) = 2 * P" using shape1_reshape[OF lc] Q by simp
  have sv: "shape1 (reshape v Q P) = P" using shape1_reshape[OF lv] Q by simp
  have lG: "length Gr = 2 * P" by (simp add: Gr_def length_transpose2 sc)
  have rG: "list_all (\<lambda>row. length row = 2 * Q) Gr"
    unfolding Gr_def using transpose2_rows[of "reshape c0 (2 * Q) (2 * P)"] by simp
  have sG: "shape1 Gr = 2 * Q"
    unfolding Gr_def using shape1_transpose2[of "reshape c0 (2 * Q) (2 * P)"] sc P by simp
  have lV: "length Vr = P" by (simp add: Vr_def length_transpose2 sv)
  have rV: "list_all (\<lambda>row. length row = Q) Vr"
    unfolding Vr_def using transpose2_rows[of "reshape v Q P"] by simp
  have sV: "shape1 Vr = Q"
    unfolding Vr_def using shape1_transpose2[of "reshape v Q P"] sv P by simp
  have rV': "list_all (\<lambda>row. length row = shape1 Vr) Vr" using rV sV by simp
  have sVp: "shape1 (zero_pad Vr Q P) = 2 * Q"
    using shape1_zero_pad[OF rV', of P Q] P sV by simp
  have lX: "length X = 2 * P"
    unfolding X_def
    by (rule product_grid_shape(1)) (simp_all add: lG lV length_zero_pad shape1_map_map sG sVp)
  have rX: "length (X ! k) = 2 * Q" if "k < 2 * P" for k
    unfolding X_def
    by (rule product_grid_shape(2)[where M = "2 * P"])
       (simp_all add: lG lV length_zero_pad shape1_map_map sG sVp that)
  have lW: "length W = P" by (simp add: W_def lX)
  have rW: "length (W ! q) = Q" if "q < P" for q
    unfolding W_def using that lX rX[of q] by simp
  have sW: "shape1 W = Q"
  proof -
    have "W \<noteq> []" using lW P by auto
    then have "shape1 W = length (W ! 0)" by (rule shape1_nth0)
    then show ?thesis using rW[of 0] P by simp
  qed
  have Xqp: "X ! q ! p = complex_of_real (\<Sum>m<P. \<Sum>n<Q. Vr ! m ! n *
              Gr ! nat ((int q - int m) mod int (2 * P)) ! nat ((int p - int n) mod int (2 * Q)))"
    if "q < P" "p < Q" for p q
    unfolding X_def by (rule padded_product[OF P Q lV rV lG rG that])
  have Wqp: "W ! q ! p = (\<Sum>m<Q. \<Sum>n<P.
            c0 ! (nat ((int p - int m) mod int (2 * Q)) * (2 * P)
                  + nat ((int q - int n) mod int (2 * P)))
            * v ! (m * P + n))" if pq: "p < Q" "q < P" for p q
  proof -
    have "W ! q ! p = Re (X ! q ! p)"
      unfolding W_def using pq lX rX[of q] by simp
    also have "\<dots> = (\<Sum>n<P. \<Sum>m<Q. Vr ! n ! m *
              Gr ! nat ((int q - int n) mod int (2 * P)) ! nat ((int p - int m) mod int (2 * Q)))"
      unfolding Xqp[OF pq(2) pq(1)] by simp
    also have "\<dots> = (\<Sum>n<P. \<Sum>m<Q.
            c0 ! (nat ((int p - int m) mod int (2 * Q)) * (2 * P)
                  + nat ((int q - int n) mod int (2 * P)))
            * v ! (m * P + n))"
    proof (intro sum.cong refl)
      fix m n assume "n \<in> {..<P}" "m \<in> {..<Q}"
      then have mn: "m < Q" "n < P" by simp_all
      have a: "nat ((int p - int m) mod int (2 * Q)) < 2 * Q" using Q by (simp add: nat_less_iff)
      have b: "nat ((int q - int n) mod int (2 * P)) < 2 * P" using P by (simp add: nat_less_iff)
      have "Vr ! n ! m = v ! (m * P + n)"
        unfolding Vr_def using transpose2_nth_nth[of n "reshape v Q P" m] mn sv
          reshape_nth_nth[OF lv mn] by simp
      moreover have "Gr ! nat ((int q - int n) mod int (2 * P)) ! nat ((int p - int m) mod int (2 * Q))
            = c0 ! (nat ((int p - int m) mod int (2 * Q)) * (2 * P)
                  + nat ((int q - int n) mod int (2 * P)))"
        unfolding Gr_def
        using transpose2_nth_nth[of "nat ((int q - int n) mod int (2 * P))"
                "reshape c0 (2 * Q) (2 * P)" "nat ((int p - int m) mod int (2 * Q))"]
          a b sc reshape_nth_nth[OF lc a b] by simp
      ultimately show "Vr ! n ! m *
              Gr ! nat ((int q - int n) mod int (2 * P)) ! nat ((int p - int m) mod int (2 * Q))
            = c0 ! (nat ((int p - int m) mod int (2 * Q)) * (2 * P)
                  + nat ((int q - int n) mod int (2 * P))) * v ! (m * P + n)"
        by (simp only: mult.commute)
    qed
    also have "\<dots> = (\<Sum>m<Q. \<Sum>n<P.
            c0 ! (nat ((int p - int m) mod int (2 * Q)) * (2 * P)
                  + nat ((int q - int n) mod int (2 * P)))
            * v ! (m * P + n))"
      by (rule sum.swap)
    finally show ?thesis .
  qed
  have lT: "length (transpose2 W) = Q" by (simp add: length_transpose2 sW)
  have uT: "list_all (\<lambda>x. length x = P) (transpose2 W)"
    using transpose2_rows[of W] lW by simp
  have "concat (transpose2 W) = embedded_product c0 Q P v"
  proof (rule nth_equalityI)
    show "length (concat (transpose2 W)) = length (embedded_product c0 Q P v)"
      using length_concat_uniform[OF uT] lT by (simp add: embedded_product_def)
  next
    fix r assume "r < length (concat (transpose2 W))"
    then have r: "r < Q * P" using length_concat_uniform[OF uT] lT by simp
    have pq: "r div P < Q" "r mod P < P" using div_mod_less[OF r] by simp_all
    have "concat (transpose2 W) ! r = transpose2 W ! (r div P) ! (r mod P)"
      by (rule nth_concat_div_mod[OF uT]) (simp add: lT r)
    also have "\<dots> = W ! (r mod P) ! (r div P)"
      using transpose2_nth_nth[of "r div P" W "r mod P"] pq sW lW by simp
    finally show "concat (transpose2 W) ! r = embedded_product c0 Q P v ! r"
      using Wqp[OF pq] r by (simp add: embedded_product_def)
  qed
  then show ?thesis unfolding W_def X_def Gr_def Vr_def .
qed

lemma nine_symmetries:
  "symmetry \<in> set [''skew-skew'', ''skew-symm'', ''symm-skew'', ''symm-symm'']
   \<Longrightarrow> symmetry \<in> set [''skew-skew'', ''skew-symm'', ''symm-skew'', ''symm-symm'',
                          ''gene-symm'', ''symm-gene'', ''gene-skew'', ''skew-gene'',
                          ''gene-gene'']"
  by auto

lemma eigenvalues_BCCB_eq:
  assumes Q: "0 < Q" and P: "0 < P" and lc: "length c0 = 2 * Q * (2 * P)"
    and sym: "symmetry \<in> set [''skew-skew'', ''skew-symm'', ''symm-skew'', ''symm-symm'',
                                ''gene-symm'', ''symm-gene'', ''gene-skew'', ''skew-gene'',
                                ''gene-gene'']"
    and ord: "ordering' = ''row'' \<or> ordering' = ''column''"
  shows "eigenvalues_BCCB \<lparr>first_column = c0, B_nblocks = int Q, B_npoints_per_block = int P,
            B_symmetry = symmetry\<rparr> ordering'
         = Inr \<lparr>eigenvalues =
                  map (map (\<lambda>z. complex_of_real (sqrt (real (2 * Q * (2 * P)))) * z))
                    (fft2 (map (map complex_of_real)
                       (if ordering' = ''row'' then reshape c0 (2 * Q) (2 * P)
                        else transpose2 (reshape c0 (2 * Q) (2 * P))))),
                E_ordering = ordering', E_nblocks = int Q, E_npoints_per_block = int P,
                E_symmetry = symmetry\<rparr>"
proof -
  have n2Q: "nat (2 * int Q) = 2 * Q" and n2P: "nat (2 * int P) = 2 * P" by simp_all
  have len: "int (length c0) = 4 * int Q * int P" using lc by simp
  have c: "real_of_int (4 * int Q * int P) = real (2 * Q * (2 * P))" by simp
  have o: "ordering' \<in> set [''row'', ''column'']" using ord by auto
  show ?thesis
    unfolding eigenvalues_BCCB_def Let_def
    using Q P len sym o by (simp only: n2Q n2P c is_integer_def BCCB0.simps) simp
qed

lemma eigen_grid_shape:
  assumes "length Gm = M" "shape1 Gm = N"
  shows "has_shape (map (map f) (fft2 Gm)) (int M) (int N)"
  unfolding has_shape_def list_all_length
  using assms by (simp add: fft2_def length_dft2_row)

lemma product_BCCB_vector_row:
  assumes Q: "0 < Q" and P: "0 < P"
    and lc: "length c0 = 2 * Q * (2 * P)" and lv: "length v = Q * P"
  shows "product_BCCB_vector
           \<lparr>eigenvalues =
              map (map (\<lambda>z. complex_of_real (sqrt (real (2 * Q * (2 * P)))) * z))
                (fft2 (map (map complex_of_real) (reshape c0 (2 * Q) (2 * P)))),
            E_ordering = ''row'', E_nblocks = int Q, E_npoints_per_block = int P,
            E_symmetry = symmetry\<rparr> v True
         = Inr (embedded_product c0 Q P v)"
proof -
  define L where "L = map (map (\<lambda>z. complex_of_real (sqrt (real (2 * Q * (2 * P)))) * z))
                (fft2 (map (map complex_of_real) (reshape c0 (2 * Q) (2 * P))))"
  have sc: "shape1 (reshape c0 (2 * Q) (2 * P)) = 2 * P" using shape1_reshape[OF lc] Q by simp
  have "has_shape L (int (2 * Q)) (int (2 * P))"
    unfolding L_def by (rule eigen_grid_shape) (simp_all add: shape1_map_map sc)
  then have shape: "has_shape L (2 * int Q) (2 * int P)" by simp
  have checks: "product_BCCB_vector_checks
           \<lparr>eigenvalues = L, E_ordering = ''row'', E_nblocks = int Q,
            E_npoints_per_block = int P, E_symmetry = symmetry\<rparr> v
        = Inr (L, ''row'', int Q, int P)"
    unfolding product_BCCB_vector_checks_def Let_def
    using Q P lv shape by (simp add: is_integer_def)
  have body: "concat (map (\<lambda>r. map Re (take P r)) (take Q (ifft2 (hadamard L
            (fft2 (map (map complex_of_real) (zero_pad (reshape v Q P) P Q)))))))
         = embedded_product c0 Q P v"
    unfolding L_def by (rule row_body[OF Q P lc lv])
  show ?thesis
    unfolding L_def[symmetric] product_BCCB_vector_def checks
    by (simp add: Let_def body)
qed

lemma product_BCCB_vector_column:
  assumes Q: "0 < Q" and P: "0 < P"
    and lc: "length c0 = 2 * Q * (2 * P)" and lv: "length v = Q * P"
  shows "product_BCCB_vector
           \<lparr>eigenvalues =
              map (map (\<lambda>z. complex_of_real (sqrt (real (2 * Q * (2 * P)))) * z))
                (fft2 (map (map complex_of_real) (transpose2 (reshape c0 (2 * Q) (2 * P))))),
            E_ordering = ''column'', E_nblocks = int Q, E_npoints_per_block = int P,
            E_symmetry = symmetry\<rparr> v True
         = Inr (embedded_product c0 Q P v)"
proof -
  define L where "L = map (map (\<lambda>z. complex_of_real (sqrt (real (2 * P * (2 * Q)))) * z))
                (fft2 (map (map complex_of_real) (transpose2 (reshape c0 (2 * Q) (2 * P)))))"
  have comm: "2 * Q * (2 * P) = 2 * P * (2 * Q)" by simp
  have sc: "shape1 (reshape c0 (2 * Q) (2 * P)) = 2 * P" using shape1_reshape[OF lc] Q by simp
  have st: "shape1 (transpose2 (reshape c0 (2 * Q) (2 * P))) = 2 * Q"
    using shape1_transpose2[of "reshape c0 (2 * Q) (2 * P)"] sc P by simp
  have "has_shape L (int (2 * P)) (int (2 * Q))"
    unfolding L_def
    by (rule eigen_grid_shape) (simp_all add: shape1_map_map length_transpose2 sc st)
  then have shape: "has_shape L (2 * int P) (2 * int Q)" by simp
  have checks: "product_BCCB_vector_checks
           \<lparr>eigenvalues = L, E_ordering = ''column'', E_nblocks = int Q,
            E_npoints_per_block = int P, E_symmetry = symmetry\<rparr> v
        = Inr (L, ''column'', int Q, int P)"
    unfolding product_BCCB_vector_checks_def Let_def
    using Q P lv shape by (simp add: is_integer_def)
  have body: "concat (transpose2 (map (\<lambda>r. map Re (take Q r)) (take P (ifft2 (hadamard L
            (fft2 (map (map complex_of_real)
               (zero_pad (transpose2 (reshape v Q P)) Q P))))))))
         = embedded_product c0 Q P v"
    unfolding L_def by (rule column_body[OF Q P lc lv])
  show ?thesis
    unfolding comm L_def[symmetric] product_BCCB_vector_def checks
    by (simp add: Let_def body)
qed

section \<open>The first column built by embedding\_BCCB\_first\_column\<close>

lemma map_times_minus_one: "map ((*) (- 1 :: real)) xs = map uminus xs"
  by simp

lemma map_times_one: "map ((*) (1 :: real)) xs = xs"
  by (induction xs) simp_all

lemma split_concat:
  assumes "list_all (\<lambda>x. length x = P) columns" "0 < P"
  shows "split (concat columns) (length columns) = columns"
proof -
  have "length (concat columns) = length columns * P"
    by (rule length_concat_uniform[OF assms(1)])
  then have "length (concat columns) div length columns = P \<or> columns = []"
    by (cases "columns = []") simp_all
  then show ?thesis
  proof
    assume "length (concat columns) div length columns = P"
    then show ?thesis unfolding split_def using reshape_concat_uniform[OF assms(1)] by simp
  next
    assume "columns = []"
    then show ?thesis by (simp add: split_def reshape_def)
  qed
qed

lemma embedding_BCCB_first_column_eq:
  assumes ss: "ss = ''symm'' \<or> ss = ''skew''" and sb: "sb = ''symm'' \<or> sb = ''skew''"
    and Q: "0 < Q" and P: "0 < P" and lb: "length b0 = Q * P"
  shows "embedding_BCCB_first_column b0 (int Q) (int P) (ss @ ''-'' @ sb)
         = Inr \<lparr>first_column =
                  concat (embedding_pieces (symmetry_sign ss) (symmetry_sign sb) (split b0 Q) P),
                B_nblocks = int Q, B_npoints_per_block = int P,
                B_symmetry = ss @ ''-'' @ sb\<rparr>"
proof -
  have n2P: "nat (2 * int P) = 2 * P" by simp
  have len: "int (length b0) = int Q * int P" using lb by simp
  show ?thesis
    using ss sb Q P len
    unfolding embedding_BCCB_first_column_def Let_def embedding_pieces_def symmetry_sign_def
    by (auto simp add: is_integer_def n2P map_times_one map_times_minus_one)
qed

lemma index_mod_le:
  fixes p m Q :: nat
  assumes "m \<le> p" "p < Q"
  shows "nat ((int p - int m) mod int (2 * Q)) = p - m"
proof -
  have "0 \<le> int p - int m" "int p - int m < int (2 * Q)" using assms by simp_all
  then have "(int p - int m) mod int (2 * Q) = int p - int m" by (rule mod_pos_pos_trivial)
  then show ?thesis using assms by simp
qed

lemma index_mod_gt:
  fixes p m Q :: nat
  assumes "p < m" "m < Q"
  shows "nat ((int p - int m) mod int (2 * Q)) = 2 * Q - (m - p)"
proof -
  have "(int p - int m) mod int (2 * Q) = (int p - int m + int (2 * Q)) mod int (2 * Q)"
    by simp
  also have "\<dots> = int p - int m + int (2 * Q)"
    by (rule mod_pos_pos_trivial) (use assms in simp_all)
  finally show ?thesis using assms by simp
qed

lemma reflected_nth:
  assumes "length bi = P" "0 < d" "d < P"
  shows "map f (rev (tl bi)) ! (P - 1 - d) = f (bi ! d)"
proof -
  have l: "length (tl bi) = P - 1" using assms by simp
  have k: "P - 1 - d < length (tl bi)" using assms l by arith
  have idx: "length (tl bi) - Suc (P - 1 - d) = d - 1" using assms l by arith
  have "rev (tl bi) ! (P - 1 - d) = tl bi ! (d - 1)"
    using rev_nth[OF k] idx by simp
  also have "\<dots> = bi ! d" using assms l by (simp add: nth_tl)
  finally show ?thesis using k by simp
qed

lemma piece_nth:
  assumes lx: "length xs = P" and lb: "length bi = P" and q: "q < P" and n: "n < P"
  shows "(xs @ [0] @ map f (rev (tl bi))) ! nat ((int q - int n) mod int (2 * P))
         = (if n \<le> q then xs ! (q - n) else f (bi ! (n - q)))"
proof (cases "n \<le> q")
  case True
  have "q - n < length xs" using lx q by arith
  then have "(xs @ [0] @ map f (rev (tl bi))) ! (q - n) = xs ! (q - n)"
    by (simp add: nth_append)
  then show ?thesis using index_mod_le[OF True q] True by simp
next
  case False
  then have nq: "q < n" by simp
  have idx: "nat ((int q - int n) mod int (2 * P)) = 2 * P - (n - q)"
    by (rule index_mod_gt[OF nq n])
  have e: "2 * P - (n - q) = length xs + Suc (P - 1 - (n - q))" using lx nq n by arith
  have "(xs @ [0] @ map f (rev (tl bi))) ! (length xs + Suc (P - 1 - (n - q)))
        = map f (rev (tl bi)) ! (P - 1 - (n - q))"
    by (simp only: nth_append_length_plus) simp
  also have "\<dots> = f (bi ! (n - q))"
    by (rule reflected_nth[OF lb]) (use nq n in simp_all)
  finally show ?thesis using False idx e by simp
qed

lemma length_embedding_pieces:
  assumes "0 < length parts"
  shows "length (embedding_pieces s t parts P) = 2 * length parts"
  using assms by (simp add: embedding_pieces_def)

lemma embedding_pieces_uniform:
  assumes "list_all (\<lambda>x. length x = P) parts" "0 < P"
  shows "list_all (\<lambda>x. length x = 2 * P) (embedding_pieces s t parts P)"
proof -
  have a: "length bi = P" if "bi \<in> set parts" for bi
    using assms(1) that by (simp add: list_all_iff)
  have b: "length bi = P" if "bi \<in> set (tl parts)" for bi
    using a[of bi] that by (cases parts) simp_all
  show ?thesis
    unfolding embedding_pieces_def list_all_iff using a b assms(2) by auto
qed

lemma embedding_pieces_entry:
  assumes lp: "length parts = Q" and up: "list_all (\<lambda>x. length x = P) parts"
    and p: "p < Q" and m: "m < Q" and q: "q < P" and n: "n < P"
  shows "embedding_pieces s t parts P ! nat ((int p - int m) mod int (2 * Q))
           ! nat ((int q - int n) mod int (2 * P))
         = BTTB_entry s t parts p q m n"
proof (cases "m \<le> p")
  case True
  have idx: "nat ((int p - int m) mod int (2 * Q)) = p - m" by (rule index_mod_le[OF True p])
  have k: "p - m < length parts" using lp p by arith
  then have lb: "length (parts ! (p - m)) = P" using up by (simp add: list_all_length)
  have "embedding_pieces s t parts P ! (p - m)
        = parts ! (p - m) @ [0] @ map ((*) t) (rev (tl (parts ! (p - m))))"
    unfolding embedding_pieces_def using k by (simp add: nth_append)
  then show ?thesis
    unfolding idx BTTB_entry_def toeplitz_entry_def
    using piece_nth[OF lb lb q n, of "(*) t"] True by simp
next
  case False
  then have pm: "p < m" by simp
  have idx: "nat ((int p - int m) mod int (2 * Q)) = 2 * Q - (m - p)"
    by (rule index_mod_gt[OF pm m])
  have e: "2 * Q - (m - p) = length (map (\<lambda>bi. bi @ [0] @ map ((*) t) (rev (tl bi))) parts)
            + Suc (Q - 1 - (m - p))" using lp pm m by simp
  have k: "Q - 1 - (m - p) < length (tl parts)" using lp pm m by simp
  have i2: "length (tl parts) - Suc (Q - 1 - (m - p)) = m - p - 1" using lp pm m by simp
  have "rev (tl parts) ! (Q - 1 - (m - p)) = tl parts ! (m - p - 1)"
    using rev_nth[OF k] i2 by simp
  also have "\<dots> = parts ! Suc (m - p - 1)" using lp pm m by (simp add: nth_tl)
  also have "Suc (m - p - 1) = m - p" using pm by simp
  finally have r: "rev (tl parts) ! (Q - 1 - (m - p)) = parts ! (m - p)" .
  have lb: "length (parts ! (m - p)) = P" using up lp m by (simp add: list_all_length)
  have "embedding_pieces s t parts P ! (2 * Q - (m - p))
        = map ((*) s) (parts ! (m - p)) @ [0] @ map ((*) (s * t)) (rev (tl (parts ! (m - p))))"
    unfolding embedding_pieces_def e
    by (simp only: nth_append_length_plus) (use k r in simp)
  then show ?thesis
    unfolding idx BTTB_entry_def toeplitz_entry_def
    using piece_nth[of "map ((*) s) (parts ! (m - p))" P "parts ! (m - p)" q n "(*) (s * t)"]
      lb q n False by (simp add: mult.assoc)
qed

section \<open>The matrix built by generic\_BTTB\<close>

lemma toeplitz_gather_nth:
  assumes l: "length xs = n" and i: "i < n" and j: "j < n"
  shows "(map f (rev (tl xs)) @ xs) ! (i + (n - 1 - j))
         = (if j \<le> i then xs ! (i - j) else f (xs ! (j - i)))"
proof (cases "j \<le> i")
  case True
  have e: "i + (n - 1 - j) = length (map f (rev (tl xs))) + (i - j)"
    using l i j True by simp
  show ?thesis unfolding e by (simp only: nth_append_length_plus) (use True in simp)
next
  case False
  then have e: "i + (n - 1 - j) = n - 1 - (j - i)" using i j by simp
  have k: "n - 1 - (j - i) < length (map f (rev (tl xs)))" using l i j False by simp
  have "(map f (rev (tl xs)) @ xs) ! (n - 1 - (j - i)) = map f (rev (tl xs)) ! (n - 1 - (j - i))"
    using k by (simp only: nth_append if_True)
  also have "\<dots> = f (xs ! (j - i))"
    by (rule reflected_nth[OF l]) (use i j False in simp_all)
  finally show ?thesis using False e by simp
qed

lemma fancy_index_nat:
  assumes "list_all (list_all (\<lambda>k. k < length a)) ind"
  shows "fancy_index a (map (map int) ind) = Inr (map (map (nth a)) ind)"
proof -
  have b: "in_bounds (length a) (int k)" if "k < length a" for k
    unfolding in_bounds_def using that by simp
  have w: "wrap_index (length a) (int k) = k" for k
    by (simp add: wrap_index_def)
  have "list_all (list_all (in_bounds (length a))) (map (map int) ind)"
    using assms b by (simp add: list_all_iff)
  then show ?thesis
    unfolding fancy_index_def by (simp add: w comp_def)
qed

lemma toeplitz_indices_nat:
  "toeplitz_indices (int n) = map (map int) (map (\<lambda>r. map (\<lambda>c. r + (n - 1 - c)) [0..<n]) [0..<n])"
  unfolding toeplitz_indices_def by (simp add: of_nat_diff)

lemma fancy_index_toeplitz:
  assumes "length a = 2 * n - 1"
  shows "fancy_index a (toeplitz_indices (int n))
         = Inr (map (\<lambda>r. map (\<lambda>c. a ! (r + (n - 1 - c))) [0..<n]) [0..<n])"
proof -
  have "list_all (list_all (\<lambda>k. k < length a)) (map (\<lambda>r. map (\<lambda>c. r + (n - 1 - c)) [0..<n]) [0..<n])"
    using assms by (auto simp: list_all_iff)
  then have "fancy_index a (toeplitz_indices (int n))
        = Inr (map (map (nth a)) (map (\<lambda>r. map (\<lambda>c. r + (n - 1 - c)) [0..<n]) [0..<n]))"
    unfolding toeplitz_indices_nat by (rule fancy_index_nat)
  then show ?thesis by (simp add: comp_def)
qed

lemma hstack_grid:
  fixes B :: "nat \<Rightarrow> nat \<Rightarrow> 'a list"
  assumes Q: "0 < Q" and lB: "\<And>I J. I < Q \<Longrightarrow> J < Q \<Longrightarrow> length (B I J) = P"
  shows "hstack (map (\<lambda>I. map (\<lambda>J. B I J) [0..<Q]) [0..<Q])
         = Inr (map (\<lambda>J. concat (map (\<lambda>I. B I J) [0..<Q])) [0..<Q])"
proof -
  define G4 where "G4 = map (\<lambda>I. map (\<lambda>J. B I J) [0..<Q]) [0..<Q]"
  have ne: "G4 \<noteq> []" using Q by (simp add: G4_def)
  have "hd G4 = G4 ! 0" using ne by (simp add: hd_conv_nth)
  then have lh: "length (hd G4) = Q" using Q by (simp add: G4_def)
  have col: "map (\<lambda>A. A ! J) G4 = map (\<lambda>I. B I J) [0..<Q]" if "J < Q" for J
    unfolding G4_def using that by simp
  have "map (\<lambda>J. concat (map (\<lambda>A. A ! J) G4)) [0..<Q]
        = map (\<lambda>J. concat (map (\<lambda>I. B I J) [0..<Q])) [0..<Q]"
    by (rule map_cong[OF refl]) (simp add: col)
  then show ?thesis
    unfolding G4_def[symmetric] hstack_def using ne lh by simp
qed

lemma concat_blocks_nth:
  fixes B :: "nat \<Rightarrow> 'a list"
  assumes lB: "\<And>I. I < Q \<Longrightarrow> length (B I) = P" and r: "r < Q * P"
  shows "concat (map B [0..<Q]) ! r = B (r div P) ! (r mod P)"
proof -
  have u: "list_all (\<lambda>x. length x = P) (map B [0..<Q])"
    using lB by (simp add: list_all_iff)
  have "concat (map B [0..<Q]) ! r = map B [0..<Q] ! (r div P) ! (r mod P)"
    by (rule nth_concat_div_mod[OF u]) (simp add: r)
  then show ?thesis using div_mod_less(1)[OF r] by simp
qed

lemma length_concat_blocks:
  fixes B :: "nat \<Rightarrow> 'a list"
  assumes lB: "\<And>I. I < Q \<Longrightarrow> length (B I) = P"
  shows "length (concat (map B [0..<Q])) = Q * P"
proof -
  have u: "list_all (\<lambda>x. length x = P) (map B [0..<Q])"
    using lB by (simp add: list_all_iff)
  show ?thesis using length_concat_uniform[OF u] by simp
qed

lemma hstack_hstack:
  fixes B :: "nat \<Rightarrow> nat \<Rightarrow> 'a list list"
  assumes Q: "0 < Q" and P: "0 < P"
    and lB: "\<And>I J. I < Q \<Longrightarrow> J < Q \<Longrightarrow> length (B I J) = P"
    and rB: "\<And>I J i. I < Q \<Longrightarrow> J < Q \<Longrightarrow> i < P \<Longrightarrow> length (B I J ! i) = P"
  shows "(case hstack (map (\<lambda>I. map (\<lambda>J. B I J) [0..<Q]) [0..<Q]) of
            Inl e \<Rightarrow> Inl e | Inr inner \<Rightarrow> hstack inner)
         = Inr (map (\<lambda>r. map (\<lambda>c. B (r div P) (c div P) ! (r mod P) ! (c mod P)) [0..<Q * P])
                  [0..<Q * P])"
proof -
  define inner where "inner = map (\<lambda>J. concat (map (\<lambda>I. B I J) [0..<Q])) [0..<Q]"
  have first: "hstack (map (\<lambda>I. map (\<lambda>J. B I J) [0..<Q]) [0..<Q]) = Inr inner"
    unfolding inner_def by (rule hstack_grid[OF Q lB])
  have ne: "inner \<noteq> []" using Q by (simp add: inner_def)
  have "hd inner = inner ! 0" using ne by (simp add: hd_conv_nth)
  then have "hd inner = concat (map (\<lambda>I. B I 0) [0..<Q])" using Q by (simp add: inner_def)
  then have lh: "length (hd inner) = Q * P"
    using length_concat_blocks[of Q "\<lambda>I. B I 0" P] lB Q by simp
  have row: "concat (map (\<lambda>A. A ! r) inner)
             = map (\<lambda>c. B (r div P) (c div P) ! (r mod P) ! (c mod P)) [0..<Q * P]"
    if r: "r < Q * P" for r
  proof -
    have rd: "r div P < Q" "r mod P < P" using div_mod_less[OF r] by simp_all
    have "map (\<lambda>A. A ! r) inner = map (\<lambda>J. concat (map (\<lambda>I. B I J) [0..<Q]) ! r) [0..<Q]"
      by (simp add: inner_def comp_def)
    also have "\<dots> = map (\<lambda>J. B (r div P) J ! (r mod P)) [0..<Q]"
    proof (rule map_cong[OF refl])
      fix J assume "J \<in> set [0..<Q]"
      then have J: "J < Q" by simp
      show "concat (map (\<lambda>I. B I J) [0..<Q]) ! r = B (r div P) J ! (r mod P)"
        by (rule concat_blocks_nth[OF _ r]) (simp add: lB J)
    qed
    finally have e: "map (\<lambda>A. A ! r) inner = map (\<lambda>J. B (r div P) J ! (r mod P)) [0..<Q]" .
    show ?thesis unfolding e
    proof (rule nth_equalityI)
      show "length (concat (map (\<lambda>J. B (r div P) J ! (r mod P)) [0..<Q]))
            = length (map (\<lambda>c. B (r div P) (c div P) ! (r mod P) ! (c mod P)) [0..<Q * P])"
        using length_concat_blocks[of Q "\<lambda>J. B (r div P) J ! (r mod P)" P] rB rd by simp
    next
      fix c assume "c < length (concat (map (\<lambda>J. B (r div P) J ! (r mod P)) [0..<Q]))"
      then have c: "c < Q * P"
        using length_concat_blocks[of Q "\<lambda>J. B (r div P) J ! (r mod P)" P] rB rd by simp
      have "concat (map (\<lambda>J. B (r div P) J ! (r mod P)) [0..<Q]) ! c
            = B (r div P) (c div P) ! (r mod P) ! (c mod P)"
        by (rule concat_blocks_nth[OF _ c]) (simp add: rB rd)
      then show "concat (map (\<lambda>J. B (r div P) J ! (r mod P)) [0..<Q]) ! c
            = map (\<lambda>c. B (r div P) (c div P) ! (r mod P) ! (c mod P)) [0..<Q * P] ! c"
        using c by simp
    qed
  qed
  have "hstack inner = Inr (map (\<lambda>r. concat (map (\<lambda>A. A ! r) inner)) [0..<Q * P])"
    unfolding hstack_def using ne lh by simp
  also have "map (\<lambda>r. concat (map (\<lambda>A. A ! r) inner)) [0..<Q * P]
             = map (\<lambda>r. map (\<lambda>c. B (r div P) (c div P) ! (r mod P) ! (c mod P)) [0..<Q * P])
                  [0..<Q * P]"
    by (rule map_cong[OF refl]) (simp add: row)
  finally show ?thesis using first by simp
qed

lemma sequence_map_Inr:
  "(\<And>x. x \<in> set xs \<Longrightarrow> f x = Inr (g x)) \<Longrightarrow> sequence (map f xs) = Inr (map g xs)"
  by (induction xs) simp_all

lemma block_gather:
  assumes "length column = P"
  shows "fancy_index (map f (rev (tl column)) @ column) (toeplitz_indices (int P))
         = Inr (map (\<lambda>i. map (\<lambda>j. if j \<le> i then column ! (i - j) else f (column ! (j - i)))
                   [0..<P]) [0..<P])"
proof -
  have l: "length (map f (rev (tl column)) @ column) = 2 * P - 1" using assms by simp
  have "map (\<lambda>r. map (\<lambda>c. (map f (rev (tl column)) @ column) ! (r + (P - 1 - c))) [0..<P]) [0..<P]
        = map (\<lambda>i. map (\<lambda>j. if j \<le> i then column ! (i - j) else f (column ! (j - i)))
                   [0..<P]) [0..<P]"
  proof (intro map_cong refl)
    fix r c assume "r \<in> set [0..<P]" "c \<in> set [0..<P]"
    then have "r < P" "c < P" by simp_all
    then show "(map f (rev (tl column)) @ column) ! (r + (P - 1 - c))
               = (if c \<le> r then column ! (r - c) else f (column ! (c - r)))"
      by (rule toeplitz_gather_nth[OF assms])
  qed
  then show ?thesis using fancy_index_toeplitz[OF l] by simp
qed

lemma block_symm_eq:
  assumes "length column = P"
  shows "block_symm (toeplitz_indices (int P)) column = Inr (toeplitz_block 1 column)"
  using block_gather[OF assms, of "\<lambda>x. x"] assms
  by (simp add: block_symm_def toeplitz_block_def toeplitz_entry_def)

lemma block_skew_eq:
  assumes "length column = P"
  shows "block_skew (toeplitz_indices (int P)) column = Inr (toeplitz_block (- 1) column)"
  using block_gather[OF assms, of uminus] assms
  by (simp add: block_skew_def toeplitz_block_def toeplitz_entry_def)

lemma make_blocks_pure:
  assumes sb: "sb = ''symm'' \<or> sb = ''skew''"
    and u: "list_all (\<lambda>c. length c = P) columns"
  shows "make_blocks sb (toeplitz_indices (int P)) columns rows
         = Inr (map (toeplitz_block (symmetry_sign sb)) columns)"
proof -
  have l: "length c = P" if "c \<in> set columns" for c
    using u that by (simp add: list_all_iff)
  from sb show ?thesis
  proof
    assume s: "sb = ''symm''"
    have "sequence (map (block_symm (toeplitz_indices (int P))) columns)
          = Inr (map (toeplitz_block 1) columns)"
      by (rule sequence_map_Inr) (simp add: block_symm_eq l)
    then show ?thesis by (simp add: make_blocks_def s symmetry_sign_def)
  next
    assume s: "sb = ''skew''"
    have "sequence (map (block_skew (toeplitz_indices (int P))) columns)
          = Inr (map (toeplitz_block (- 1)) columns)"
      by (rule sequence_map_Inr) (simp add: block_skew_eq l)
    then show ?thesis by (simp add: make_blocks_def s symmetry_sign_def)
  qed
qed

lemma map3_times_one: "map (map (map ((*) (1 :: real)))) xs = xs"
proof -
  have "map ((*) (1 :: real)) = (\<lambda>x. x)" by (rule ext) (simp add: map_times_one)
  then show ?thesis by (simp add: list.map_ident)
qed

lemma map3_times_minus_one: "map (map (map ((*) (- 1 :: real)))) xs = negate_blocks xs"
proof -
  have "map ((*) (- 1 :: real)) = map uminus" by (rule ext) (simp add: map_times_minus_one)
  then show ?thesis by (simp add: negate_blocks_def)
qed

lemma concatenated_blocks_pure:
  assumes ss: "ss = ''symm'' \<or> ss = ''skew''" and sb: "sb = ''symm'' \<or> sb = ''skew''"
    and u: "list_all (\<lambda>c. length c = P) columns" and ne: "columns \<noteq> []"
  shows "concatenated_blocks ss sb nblocks (toeplitz_indices (int P)) columns rows
         = Inr (map (map (map ((*) (symmetry_sign ss))))
                  (rev (tl (map (toeplitz_block (symmetry_sign sb)) columns)))
                @ map (toeplitz_block (symmetry_sign sb)) columns)"
proof -
  have mb: "make_blocks sb (toeplitz_indices (int P)) columns rows
         = Inr (map (toeplitz_block (symmetry_sign sb)) columns)"
    by (rule make_blocks_pure[OF sb u])
  from ss show ?thesis
  proof
    assume s: "ss = ''symm''"
    show ?thesis
      unfolding concatenated_blocks_def mb
      using ne by (simp add: s stack_def symmetry_sign_def map3_times_one)
  next
    assume s: "ss = ''skew''"
    show ?thesis
      unfolding concatenated_blocks_def mb
      using ne by (simp add: s stack_def symmetry_sign_def map3_times_minus_one)
  qed
qed

lemma toeplitz_block_shape:
  "length (toeplitz_block s column) = length column"
  "i < length column \<Longrightarrow> length (toeplitz_block s column ! i) = length column"
  "i < length column \<Longrightarrow> j < length column
   \<Longrightarrow> toeplitz_block s column ! i ! j = toeplitz_entry s column i j"
  by (simp_all add: toeplitz_block_def)

lemma generic_BTTB_pure:
  assumes ss: "ss = ''symm'' \<or> ss = ''skew''" and sb: "sb = ''symm'' \<or> sb = ''skew''"
    and Q: "0 < Q" and P: "0 < P"
    and lc: "length columns = Q" and u: "list_all (\<lambda>c. length c = P) columns"
  shows "generic_BTTB ss sb (int Q) columns None check_input
         = Inr (BTTB_matrix (symmetry_sign ss) (symmetry_sign sb) columns Q P)"
proof -
  define s where "s = symmetry_sign ss"
  define t where "t = symmetry_sign sb"
  define blocks where "blocks = map (toeplitz_block t) columns"
  define B where "B I J = (if J \<le> I then blocks ! (I - J)
                           else map (map ((*) s)) (blocks ! (J - I)))" for I J
  have ne: "columns \<noteq> []" using lc Q by auto
  have s1: "shape1 columns = P"
    using shape1_nth0[OF ne] u lc Q by (simp add: list_all_length)
  have rect: "rectangular columns" unfolding rectangular_def s1 by (rule u)
  have meta: "BTTB_metadata ss sb (int Q) columns None = None"
    unfolding BTTB_metadata_def using ss sb Q P lc s1 rect by auto
  have cb: "concatenated_blocks ss sb (int Q) (toeplitz_indices (int P)) columns None
            = Inr (map (map (map ((*) s))) (rev (tl blocks)) @ blocks)"
    unfolding s_def t_def blocks_def by (rule concatenated_blocks_pure[OF ss sb u ne])
  have lb: "length blocks = Q" by (simp add: blocks_def lc)
  have lcb: "length (map (map (map ((*) s))) (rev (tl blocks)) @ blocks) = 2 * Q - 1"
    using lb Q by simp
  have "map (\<lambda>I. map (\<lambda>J. (map (map (map ((*) s))) (rev (tl blocks)) @ blocks)
                             ! (I + (Q - 1 - J))) [0..<Q]) [0..<Q]
        = map (\<lambda>I. map (\<lambda>J. B I J) [0..<Q]) [0..<Q]"
    unfolding B_def
  proof (intro map_cong refl)
    fix I J assume "I \<in> set [0..<Q]" "J \<in> set [0..<Q]"
    then have "I < Q" "J < Q" by simp_all
    then show "(map (map (map ((*) s))) (rev (tl blocks)) @ blocks) ! (I + (Q - 1 - J))
               = (if J \<le> I then blocks ! (I - J) else map (map ((*) s)) (blocks ! (J - I)))"
      by (rule toeplitz_gather_nth[OF lb])
  qed
  then have gathered: "fancy_index (map (map (map ((*) s))) (rev (tl blocks)) @ blocks)
                   (toeplitz_indices (int Q))
                 = Inr (map (\<lambda>I. map (\<lambda>J. B I J) [0..<Q]) [0..<Q])"
    using fancy_index_toeplitz[OF lcb] by simp
  have bk: "blocks ! k = toeplitz_block t (columns ! k)" "length (columns ! k) = P"
    if "k < Q" for k
    using that lc u by (simp_all add: blocks_def list_all_length)
  have lB: "length (B I J) = P" if "I < Q" "J < Q" for I J
  proof -
    have "I - J < Q" "J - I < Q" using that by simp_all
    then show ?thesis unfolding B_def using bk by (simp add: toeplitz_block_shape)
  qed
  have rB: "length (B I J ! i) = P" if "I < Q" "J < Q" "i < P" for I J i
  proof -
    have "I - J < Q" "J - I < Q" using that by simp_all
    then show ?thesis unfolding B_def using bk that(3) by (simp add: toeplitz_block_shape)
  qed
  have eB: "B I J ! i ! j = BTTB_entry s t columns I i J j"
    if "I < Q" "J < Q" "i < P" "j < P" for I J i j
  proof -
    have "I - J < Q" "J - I < Q" using that by simp_all
    then show ?thesis
      unfolding B_def BTTB_entry_def using bk that(3,4) by (simp add: toeplitz_block_shape)
  qed
  have hh: "(case hstack (map (\<lambda>I. map (\<lambda>J. B I J) [0..<Q]) [0..<Q]) of
            Inl e \<Rightarrow> Inl e | Inr inner \<Rightarrow> hstack inner)
         = Inr (map (\<lambda>r. map (\<lambda>c. B (r div P) (c div P) ! (r mod P) ! (c mod P)) [0..<Q * P])
                  [0..<Q * P])"
    by (rule hstack_hstack[OF Q P lB rB])
  have "map (\<lambda>r. map (\<lambda>c. B (r div P) (c div P) ! (r mod P) ! (c mod P)) [0..<Q * P])
                  [0..<Q * P]
        = BTTB_matrix s t columns Q P"
    unfolding BTTB_matrix_def
  proof (intro map_cong refl)
    fix r c assume "r \<in> set [0..<Q * P]" "c \<in> set [0..<Q * P]"
    then have "r < Q * P" "c < Q * P" by simp_all
    then show "B (r div P) (c div P) ! (r mod P) ! (c mod P)
               = BTTB_entry s t columns (r div P) (r mod P) (c div P) (c mod P)"
      using div_mod_less by (intro eB) simp_all
  qed
  then have hh': "(case hstack (map (\<lambda>I. map (\<lambda>J. B I J) [0..<Q]) [0..<Q]) of
            Inl e \<Rightarrow> Inl e | Inr inner \<Rightarrow> hstack inner)
         = Inr (BTTB_matrix s t columns Q P)"
    using hh by simp
  show ?thesis
    unfolding generic_BTTB_def s_def[symmetric] t_def[symmetric]
    using meta by (simp add: s1 cb gathered hh' Let_def)
qed

section \<open>The fast product and the dense product agree\<close>

lemma sum_append_range:
  fixes f :: "nat \<Rightarrow> 'a::comm_monoid_add"
  shows "(\<Sum>j<a + b. f j) = (\<Sum>j<a. f j) + (\<Sum>j<b. f (a + j))"
  by (induction b) (simp_all add: add.assoc)

lemma sum_grid:
  fixes f :: "nat \<Rightarrow> 'a::comm_monoid_add"
  shows "(\<Sum>j<Q * P. f j) = (\<Sum>m<Q. \<Sum>n<P. f (m * P + n))"
proof (induction Q)
  case 0
  then show ?case by simp
next
  case (Suc Q)
  have "(\<Sum>j<Suc Q * P. f j) = (\<Sum>j<Q * P + P. f j)" by (simp add: add.commute)
  also have "\<dots> = (\<Sum>j<Q * P. f j) + (\<Sum>n<P. f (Q * P + n))" by (rule sum_append_range)
  finally show ?case using Suc.IH by simp
qed

lemma length_BTTB_matrix: "length (BTTB_matrix s t columns Q P) = Q * P"
  by (simp add: BTTB_matrix_def)

lemma BTTB_matrix_nth:
  "r < Q * P \<Longrightarrow> BTTB_matrix s t columns Q P ! r
     = map (\<lambda>c. BTTB_entry s t columns (r div P) (r mod P) (c div P) (c mod P)) [0..<Q * P]"
  by (simp add: BTTB_matrix_def)

lemma BTTB_matrix_nth_nth:
  "r < Q * P \<Longrightarrow> c < Q * P \<Longrightarrow> BTTB_matrix s t columns Q P ! r ! c
     = BTTB_entry s t columns (r div P) (r mod P) (c div P) (c mod P)"
  by (simp add: BTTB_matrix_def)

lemma matvec_BTTB_matrix:
  assumes lv: "length v = Q * P" and P: "0 < P"
  shows "matvec (BTTB_matrix s t columns Q P) v
         = map (\<lambda>r. \<Sum>m<Q. \<Sum>n<P.
                  BTTB_entry s t columns (r div P) (r mod P) m n * v ! (m * P + n)) [0..<Q * P]"
proof -
  have "(\<Sum>j<Q * P. BTTB_matrix s t columns Q P ! r ! j * v ! j)
        = (\<Sum>m<Q. \<Sum>n<P. BTTB_entry s t columns (r div P) (r mod P) m n * v ! (m * P + n))"
    if r: "r < Q * P" for r
  proof -
    have "(\<Sum>j<Q * P. BTTB_matrix s t columns Q P ! r ! j * v ! j)
          = (\<Sum>m<Q. \<Sum>n<P. BTTB_matrix s t columns Q P ! r ! (m * P + n) * v ! (m * P + n))"
      by (rule sum_grid)
    also have "\<dots> = (\<Sum>m<Q. \<Sum>n<P.
                  BTTB_entry s t columns (r div P) (r mod P) m n * v ! (m * P + n))"
    proof (intro sum.cong refl)
      fix m n assume "m \<in> {..<Q}" "n \<in> {..<P}"
      then have mn: "m < Q" "n < P" by simp_all
      have "Suc m \<le> Q" using mn by simp
      then have "Suc m * P \<le> Q * P" by (rule mult_le_mono1)
      then have c: "m * P + n < Q * P" using mn by simp
      have "(m * P + n) div P = m" "(m * P + n) mod P = n" using mn by simp_all
      then show "BTTB_matrix s t columns Q P ! r ! (m * P + n) * v ! (m * P + n)
            = BTTB_entry s t columns (r div P) (r mod P) m n * v ! (m * P + n)"
        using BTTB_matrix_nth_nth[OF r c, of s t columns] by simp
    qed
    finally show ?thesis .
  qed
  then show ?thesis
    unfolding matvec_def lv by (simp add: BTTB_matrix_def cong: map_cong)
qed

lemma embedded_product_pieces:
  assumes Q: "0 < Q" and P: "0 < P"
    and lc: "length columns = Q" and u: "list_all (\<lambda>c. length c = P) columns"
    and lv: "length v = Q * P"
  shows "embedded_product (concat (embedding_pieces s t columns P)) Q P v
         = matvec (BTTB_matrix s t columns Q P) v"
proof -
  define pieces where "pieces = embedding_pieces s t columns P"
  have up: "list_all (\<lambda>x. length x = 2 * P) pieces"
    unfolding pieces_def by (rule embedding_pieces_uniform[OF u P])
  have lp: "length pieces = 2 * Q"
    unfolding pieces_def using length_embedding_pieces[of columns s t P] lc Q by simp
  have entry: "concat pieces ! (nat ((int p - int m) mod int (2 * Q)) * (2 * P)
                  + nat ((int q - int n) mod int (2 * P)))
               = BTTB_entry s t columns p q m n"
    if "p < Q" "m < Q" "q < P" "n < P" for p q m n
  proof -
    have a: "nat ((int p - int m) mod int (2 * Q)) < length pieces"
      unfolding lp using Q by (simp add: nat_less_iff)
    have b: "nat ((int q - int n) mod int (2 * P)) < 2 * P" using P by (simp add: nat_less_iff)
    have "concat pieces ! (nat ((int p - int m) mod int (2 * Q)) * (2 * P)
                  + nat ((int q - int n) mod int (2 * P)))
          = pieces ! nat ((int p - int m) mod int (2 * Q)) ! nat ((int q - int n) mod int (2 * P))"
      by (rule nth_concat_uniform[OF up a b])
    also have "\<dots> = BTTB_entry s t columns p q m n"
      unfolding pieces_def by (rule embedding_pieces_entry[OF lc u that])
    finally show ?thesis .
  qed
  show ?thesis
    unfolding matvec_BTTB_matrix[OF lv P] embedded_product_def pieces_def[symmetric]
  proof (intro map_cong refl sum.cong)
    fix r m n assume "r \<in> set [0..<Q * P]" "m \<in> {..<Q}" "n \<in> {..<P}"
    then have r: "r < Q * P" and mn: "m < Q" "n < P" by simp_all
    show "concat pieces ! (nat ((int (r div P) - int m) mod int (2 * Q)) * (2 * P)
                  + nat ((int (r mod P) - int n) mod int (2 * P))) * v ! (m * P + n)
          = BTTB_entry s t columns (r div P) (r mod P) m n * v ! (m * P + n)"
      using entry[OF div_mod_less(1)[OF r] mn(1) div_mod_less(2)[OF r] mn(2)] by simp
  qed
qed

lemma pure_symmetry_tag:
  assumes "ss = ''symm'' \<or> ss = ''skew''" "sb = ''symm'' \<or> sb = ''skew''"
  shows "ss @ ''-'' @ sb \<in> set [''skew-skew'', ''skew-symm'', ''symm-skew'', ''symm-symm'']"
  using assms by auto

lemma fast_product_pure:
  assumes ss: "ss = ''symm'' \<or> ss = ''skew''" and sb: "sb = ''symm'' \<or> sb = ''skew''"
    and Q: "0 < Q" and P: "0 < P"
    and lc: "length columns = Q" and u: "list_all (\<lambda>c. length c = P) columns"
    and lv: "length v = Q * P"
    and ord: "ordering' = ''row'' \<or> ordering' = ''column''"
  shows "fast_product (concat columns) (int Q) (int P) (ss @ ''-'' @ sb) ordering' v
         = Inr (matvec (BTTB_matrix (symmetry_sign ss) (symmetry_sign sb) columns Q P) v)"
proof -
  define s where "s = symmetry_sign ss"
  define t where "t = symmetry_sign sb"
  define c0 where "c0 = concat (embedding_pieces s t columns P)"
  have lb: "length (concat columns) = Q * P"
    using length_concat_uniform[OF u] lc by simp
  have sp: "split (concat columns) Q = columns"
    using split_concat[OF u P] lc by simp
  have emb: "embedding_BCCB_first_column (concat columns) (int Q) (int P) (ss @ ''-'' @ sb)
         = Inr \<lparr>first_column = c0, B_nblocks = int Q, B_npoints_per_block = int P,
                B_symmetry = ss @ ''-'' @ sb\<rparr>"
    unfolding c0_def s_def t_def using embedding_BCCB_first_column_eq[OF ss sb Q P lb] sp by simp
  have lc0: "length c0 = 2 * Q * (2 * P)"
    unfolding c0_def
    using length_concat_uniform[OF embedding_pieces_uniform[OF u P, of s t]]
      length_embedding_pieces[of columns s t P] lc Q by simp
  have sym: "ss @ ''-'' @ sb \<in> set [''skew-skew'', ''skew-symm'', ''symm-skew'', ''symm-symm'',
                                ''gene-symm'', ''symm-gene'', ''gene-skew'', ''skew-gene'',
                                ''gene-gene'']"
    by (rule nine_symmetries[OF pure_symmetry_tag[OF ss sb]])
  have eig: "eigenvalues_BCCB \<lparr>first_column = c0, B_nblocks = int Q, B_npoints_per_block = int P,
            B_symmetry = ss @ ''-'' @ sb\<rparr> ordering'
         = Inr \<lparr>eigenvalues =
                  map (map (\<lambda>z. complex_of_real (sqrt (real (2 * Q * (2 * P)))) * z))
                    (fft2 (map (map complex_of_real)
                       (if ordering' = ''row'' then reshape c0 (2 * Q) (2 * P)
                        else transpose2 (reshape c0 (2 * Q) (2 * P))))),
                E_ordering = ordering', E_nblocks = int Q, E_npoints_per_block = int P,
                E_symmetry = ss @ ''-'' @ sb\<rparr>"
    by (rule eigenvalues_BCCB_eq[OF Q P lc0 sym ord])
  have prod: "product_BCCB_vector \<lparr>eigenvalues =
                  map (map (\<lambda>z. complex_of_real (sqrt (real (2 * Q * (2 * P)))) * z))
                    (fft2 (map (map complex_of_real)
                       (if ordering' = ''row'' then reshape c0 (2 * Q) (2 * P)
                        else transpose2 (reshape c0 (2 * Q) (2 * P))))),
                E_ordering = ordering', E_nblocks = int Q, E_npoints_per_block = int P,
                E_symmetry = ss @ ''-'' @ sb\<rparr> v True
              = Inr (embedded_product c0 Q P v)"
    using ord
  proof
    assume o: "ordering' = ''row''"
    show ?thesis unfolding o using product_BCCB_vector_row[OF Q P lc0 lv] by simp
  next
    assume o: "ordering' = ''column''"
    show ?thesis unfolding o using product_BCCB_vector_column[OF Q P lc0 lv] by simp
  qed
  have link: "embedded_product c0 Q P v = matvec (BTTB_matrix s t columns Q P) v"
    unfolding c0_def by (rule embedded_product_pieces[OF Q P lc u lv])
  have "fast_product (concat columns) (int Q) (int P) (ss @ ''-'' @ sb) ordering' v
        = Inr (embedded_product c0 Q P v)"
    unfolding fast_product_def emb by (simp only: sum.case eig prod)
  then show ?thesis
    unfolding link s_def t_def .
qed

lemma valid_columns_nat:
  assumes "0 < nblocks" "int (length columns) = nblocks" "0 < npoints_per_block"
    "list_all (\<lambda>c. int (length c) = npoints_per_block) columns"
  shows "nblocks = int (nat nblocks)" "npoints_per_block = int (nat npoints_per_block)"
    "0 < nat nblocks" "0 < nat npoints_per_block" "length columns = nat nblocks"
    "list_all (\<lambda>c. length c = nat npoints_per_block) columns"
proof -
  show "nblocks = int (nat nblocks)" "npoints_per_block = int (nat npoints_per_block)"
    "0 < nat nblocks" "0 < nat npoints_per_block" "length columns = nat nblocks"
    using assms(1-3) by simp_all
  have "length c = nat npoints_per_block" if "int (length c) = npoints_per_block" for c :: "real list"
    using that by auto
  then show "list_all (\<lambda>c. length c = nat npoints_per_block) columns"
    using assms(4) by (auto simp: list_all_iff)
qed

section \<open>Transposition\<close>

lemma symmetry_sign_cases: "symmetry_sign x = 1 \<or> symmetry_sign x = - 1"
  by (simp add: symmetry_sign_def)

lemma toeplitz_entry_mirror:
  assumes "t = 1 \<or> t = - 1"
  shows "toeplitz_entry t column j i = (if i = j then 1 else t) * toeplitz_entry t column i j"
  using assms unfolding toeplitz_entry_def by (cases i j rule: linorder_cases) auto

lemma BTTB_entry_mirror:
  assumes s: "s = 1 \<or> s = - 1" and t: "t = 1 \<or> t = - 1"
  shows "BTTB_entry s t columns J j I i
         = (if I = J then 1 else s) * ((if i = j then 1 else t) * BTTB_entry s t columns I i J j)"
proof (cases I J rule: linorder_cases)
  case less
  then show ?thesis
    unfolding BTTB_entry_def using s toeplitz_entry_mirror[OF t, of "columns ! (J - I)" j i]
    by auto
next
  case equal
  then show ?thesis
    unfolding BTTB_entry_def using toeplitz_entry_mirror[OF t, of "columns ! 0" j i] by simp
next
  case greater
  then show ?thesis
    unfolding BTTB_entry_def using s toeplitz_entry_mirror[OF t, of "columns ! (I - J)" j i]
    by auto
qed

lemma transpose2_BTTB_matrix:
  assumes Q: "0 < Q" and P: "0 < P"
  shows "transpose2 (BTTB_matrix s t columns Q P)
         = map (\<lambda>r. map (\<lambda>c. BTTB_entry s t columns (c div P) (c mod P) (r div P) (r mod P))
                  [0..<Q * P]) [0..<Q * P]"
proof -
  have ne: "BTTB_matrix s t columns Q P \<noteq> []" using Q P by (simp add: BTTB_matrix_def)
  have s1: "shape1 (BTTB_matrix s t columns Q P) = Q * P"
    using shape1_nth0[OF ne] Q P by (simp add: BTTB_matrix_def)
  show ?thesis
    unfolding transpose2_def s1
  proof (intro map_cong refl)
    fix r assume "r \<in> set [0..<Q * P]"
    then have r: "r < Q * P" by simp
    show "map (\<lambda>row. row ! r) (BTTB_matrix s t columns Q P)
          = map (\<lambda>c. BTTB_entry s t columns (c div P) (c mod P) (r div P) (r mod P)) [0..<Q * P]"
      unfolding BTTB_matrix_def using r by (simp add: comp_def cong: map_cong)
  qed
qed




section \<open>The symmetry laws of generic\_BTTB\<close>

lemma BTTB_matrix_transpose_law:
  assumes Q: "0 < Q" and P: "0 < P" and s: "s = 1 \<or> s = - 1" and t: "t = 1 \<or> t = - 1"
  shows "transpose2 (BTTB_matrix s t columns Q P)
         = map (\<lambda>r. map (\<lambda>c. (if r div P = c div P then 1 else s)
                            * ((if r mod P = c mod P then 1 else t)
                               * BTTB_matrix s t columns Q P ! r ! c))
                  [0..<Q * P]) [0..<Q * P]"
  unfolding transpose2_BTTB_matrix[OF Q P]
proof (intro map_cong refl)
  fix r c assume "r \<in> set [0..<Q * P]" "c \<in> set [0..<Q * P]"
  then have rc: "r < Q * P" "c < Q * P" by simp_all
  show "BTTB_entry s t columns (c div P) (c mod P) (r div P) (r mod P)
        = (if r div P = c div P then 1 else s)
          * ((if r mod P = c mod P then 1 else t) * BTTB_matrix s t columns Q P ! r ! c)"
    unfolding BTTB_matrix_nth_nth[OF rc] by (rule BTTB_entry_mirror[OF s t])
qed

lemma BTTB_matrix_rows:
  "BTTB_matrix s t columns Q P
   = map (\<lambda>r. map (\<lambda>c. BTTB_matrix s t columns Q P ! r ! c) [0..<Q * P]) [0..<Q * P]"
  by (rule nth_equalityI) (simp_all add: BTTB_matrix_def cong: map_cong)

text \<open>
  Claim C5, amended: for every valid table of columns, the matrix \<open>T\<close> returned by
  \<open>generic_BTTB\<close> with both symmetries \<open>symm\<close> satisfies \<open>T = T\<^sup>t\<close>.  With both symmetries
  \<open>skew\<close> the entry \<open>(c, r)\<close> of \<open>T\<close> is the entry \<open>(r, c)\<close> times one factor \<open>-1\<close> when \<open>r\<close> and
  \<open>c\<close> lie in different blocks and one factor \<open>-1\<close> when they differ inside their blocks;
  so mirror entries are equal when both differ, and opposite when exactly one differs.
\<close>

theorem C5_symmetry_laws:
  assumes "0 < nblocks" and "int (length columns) = nblocks"
    and "0 < npoints_per_block"
    and "list_all (\<lambda>c. int (length c) = npoints_per_block) columns"
  shows "(\<exists>T. generic_BTTB ''symm'' ''symm'' nblocks columns None True = Inr T
              \<and> transpose2 T = T)
       \<and> (\<exists>T. generic_BTTB ''skew'' ''skew'' nblocks columns None True = Inr T
              \<and> transpose2 T
                  = map (\<lambda>r. map (\<lambda>c. mirror_sign (nat npoints_per_block) r c * T ! r ! c)
                           [0..<length T]) [0..<length T])"
proof -
  define Q where "Q = nat nblocks"
  define P where "P = nat npoints_per_block"
  note n = valid_columns_nat[OF assms, folded Q_def P_def]
  have symm: "generic_BTTB ''symm'' ''symm'' (int Q) columns None True
           = Inr (BTTB_matrix 1 1 columns Q P)"
    using generic_BTTB_pure[OF _ _ n(3,4,5,6), of "''symm''" "''symm''" True]
    by (simp add: symmetry_sign_def)
  have skew: "generic_BTTB ''skew'' ''skew'' (int Q) columns None True
           = Inr (BTTB_matrix (- 1) (- 1) columns Q P)"
    using generic_BTTB_pure[OF _ _ n(3,4,5,6), of "''skew''" "''skew''" True]
    by (simp add: symmetry_sign_def)
  have "transpose2 (BTTB_matrix 1 1 columns Q P)
        = map (\<lambda>r. map (\<lambda>c. BTTB_matrix 1 1 columns Q P ! r ! c) [0..<Q * P]) [0..<Q * P]"
    using BTTB_matrix_transpose_law[OF n(3,4), of 1 1 columns] by simp
  then have a: "transpose2 (BTTB_matrix 1 1 columns Q P) = BTTB_matrix 1 1 columns Q P"
    using BTTB_matrix_rows[of 1 1 columns Q P] by simp
  have b: "transpose2 (BTTB_matrix (- 1) (- 1) columns Q P)
        = map (\<lambda>r. map (\<lambda>c. mirror_sign P r c * BTTB_matrix (- 1) (- 1) columns Q P ! r ! c)
                 [0..<length (BTTB_matrix (- 1) (- 1) columns Q P)])
            [0..<length (BTTB_matrix (- 1) (- 1) columns Q P)]"
    using BTTB_matrix_transpose_law[OF n(3,4), of "- 1" "- 1" columns]
    by (simp add: mirror_sign_def length_BTTB_matrix mult.assoc)
  show ?thesis
    using symm skew a b unfolding n(1)[symmetric] P_def by blast
qed

text \<open>The two laws on the table with the generating columns \<open>[1, 2]\<close> and \<open>[3, 4]\<close>.\<close>

theorem C5_witness:
  "generic_BTTB ''symm'' ''symm'' 2 [[1, 2], [3, 4]] None True
     = Inr [[1, 2, 3, 4], [2, 1, 4, 3], [3, 4, 1, 2], [4, 3, 2, 1]]
   \<and> transpose2 [[1, 2, 3, 4], [2, 1, 4, 3], [3, 4, 1, 2], [4, 3, 2, 1 :: real]]
       = [[1, 2, 3, 4], [2, 1, 4, 3], [3, 4, 1, 2], [4, 3, 2, 1]]
   \<and> generic_BTTB ''skew'' ''skew'' 2 [[1, 2], [3, 4]] None True
     = Inr [[1, - 2, - 3, 4], [2, 1, - 4, - 3], [3, - 4, 1, - 2], [4, 3, 2, 1]]
   \<and> transpose2 [[1, - 2, - 3, 4], [2, 1, - 4, - 3], [3, - 4, 1, - 2], [4, 3, 2, 1 :: real]]
       = [[1, 2, 3, 4], [- 2, 1, - 4, 3], [- 3, - 4, 1, 2], [4, - 3, - 2, 1]]"
proof -
  have a: "generic_BTTB ''symm'' ''symm'' 2 [[1, 2], [3, 4]] None True
     = Inr [[1, 2, 3, 4], [2, 1, 4, 3], [3, 4, 1, 2], [4, 3, 2, 1]]"
    by code_simp
  have b: "generic_BTTB ''skew'' ''skew'' 2 [[1, 2], [3, 4]] None True
     = Inr [[1, - 2, - 3, 4], [2, 1, - 4, - 3], [3, - 4, 1, - 2], [4, 3, 2, 1]]"
    by code_simp
  have m: "map (\<lambda>r. map (\<lambda>c. mirror_sign (nat 2) r c
                 * [[1, - 2, - 3, 4], [2, 1, - 4, - 3], [3, - 4, 1, - 2], [4, 3, 2, 1]] ! r ! c)
             [0..<length [[1, - 2, - 3, 4], [2, 1, - 4, - 3], [3, - 4, 1, - 2], [4, 3, 2, 1 :: real]]])
         [0..<length [[1, - 2, - 3, 4], [2, 1, - 4, - 3], [3, - 4, 1, - 2], [4, 3, 2, 1 :: real]]]
       = [[1, 2, 3, 4], [- 2, 1, - 4, 3], [- 3, - 4, 1, 2], [4, - 3, - 2, 1]]"
    by code_simp
  have "(\<exists>T. generic_BTTB ''symm'' ''symm'' 2 [[1, 2], [3, 4]] None True = Inr T
              \<and> transpose2 T = T)
       \<and> (\<exists>T. generic_BTTB ''skew'' ''skew'' 2 [[1, 2], [3, 4]] None True = Inr T
              \<and> transpose2 T
                  = map (\<lambda>r. map (\<lambda>c. mirror_sign (nat 2) r c * T ! r ! c)
                           [0..<length T]) [0..<length T])"
    by (rule C5_symmetry_laws) simp_all
  then show ?thesis unfolding a b using m by simp
qed

text \<open>
  Claim C5 as stated says \<open>T = -T\<^sup>t\<close> for both symmetries \<open>skew\<close>.  The table with the
  generating columns \<open>[0, 0]\<close> and \<open>[0, 1]\<close> gives a symmetric matrix that is not zero.
\<close>

theorem C5_counterexample:
  "generic_BTTB ''skew'' ''skew'' 2 [[0, 0], [0, 1]] None True
     = Inr [[0, 0, 0, 1], [0, 0, - 1, 0], [0, - 1, 0, 0], [1, 0, 0, 0]]
   \<and> map (map uminus) (transpose2 [[0, 0, 0, 1], [0, 0, - 1, 0], [0, - 1, 0, 0], [1, 0, 0, 0 :: real]])
       \<noteq> [[0, 0, 0, 1], [0, 0, - 1, 0], [0, - 1, 0, 0], [1, 0, 0, 0]]"
  by code_simp

section \<open>The transposition factor\<close>

lemma transposition_factor_pure:
  assumes "ss = ''symm'' \<or> ss = ''skew''" "sb = ''symm'' \<or> sb = ''skew''"
  shows "transposition_factor (ss @ ''-'' @ sb) = Inr (if ss = sb then 1 else - 1)"
  using assms by (auto simp: transposition_factor_def)

lemma sign_product:
  assumes "ss = ''symm'' \<or> ss = ''skew''" "sb = ''symm'' \<or> sb = ''skew''"
  shows "symmetry_sign ss * symmetry_sign sb = real_of_int (if ss = sb then 1 else - 1)"
  using assms by (auto simp: symmetry_sign_def)

lemma tl_zero_nth:
  assumes "list_all (\<lambda>x. f x = (0 :: real)) (tl xs)" "0 < k" "k < length xs"
  shows "f (xs ! k) = 0"
proof -
  have "k - 1 < length (tl xs)" using assms(2,3) by simp
  then have "f (tl xs ! (k - 1)) = 0" using assms(1) by (simp add: list_all_length)
  then show ?thesis using assms(2,3) by (simp add: nth_tl)
qed

lemma toeplitz_entry_zero:
  assumes "list_all (\<lambda>x. x = 0) (tl column)" "i \<noteq> j" "i < length column" "j < length column"
  shows "toeplitz_entry t column i j = 0"
proof -
  have "column ! (i - j) = 0" if "j < i"
    using tl_zero_nth[of "\<lambda>x. x" column "i - j"] assms(1,3) that by simp
  moreover have "column ! (j - i) = 0" if "i < j"
    using tl_zero_nth[of "\<lambda>x. x" column "j - i"] assms(1,4) that by simp
  ultimately show ?thesis using assms(2) unfolding toeplitz_entry_def by auto
qed

lemma BTTB_entry_transposed:
  assumes ss: "ss = ''symm'' \<or> ss = ''skew''" and sb: "sb = ''symm'' \<or> sb = ''skew''"
    and lc: "length columns = Q" and u: "list_all (\<lambda>c. length c = P) columns"
    and z: "skew_zero_pattern ss sb columns"
    and I: "I < Q" and J: "J < Q" and i: "i < P" and j: "j < P"
  shows "BTTB_entry (symmetry_sign ss) (symmetry_sign sb) columns J j I i
         = symmetry_sign ss * symmetry_sign sb
           * BTTB_entry (symmetry_sign ss) (symmetry_sign sb) columns I i J j"
proof -
  define s where "s = symmetry_sign ss"
  define t where "t = symmetry_sign sb"
  define x where "x = BTTB_entry s t columns I i J j"
  have s: "s = 1 \<or> s = - 1" and t: "t = 1 \<or> t = - 1"
    unfolding s_def t_def by (rule symmetry_sign_cases)+
  have l0: "length (columns ! 0) = P" using u lc I by (simp add: list_all_length)
  have m: "BTTB_entry s t columns J j I i
           = (if I = J then 1 else s) * ((if i = j then 1 else t) * x)"
    unfolding x_def by (rule BTTB_entry_mirror[OF s t])
  have z1: "x = 0" if "s = - 1" "I = J" "i \<noteq> j"
  proof -
    have "ss = ''skew''" using that(1) ss by (auto simp: s_def symmetry_sign_def)
    then have "list_all (\<lambda>x. x = 0) (tl (columns ! 0))"
      using z by (simp add: skew_zero_pattern_def)
    then have "toeplitz_entry t (columns ! 0) i j = 0"
      using toeplitz_entry_zero[of "columns ! 0" i j t] that(3) i j l0 by simp
    then show ?thesis unfolding x_def BTTB_entry_def using that(2) by simp
  qed
  have z2: "x = 0" if "t = - 1" "I \<noteq> J" "i = j"
  proof -
    have "sb = ''skew''" using that(1) sb by (auto simp: t_def symmetry_sign_def)
    then have za: "list_all (\<lambda>c. c ! 0 = 0) (tl columns)"
      using z by (simp add: skew_zero_pattern_def)
    have "columns ! (I - J) ! 0 = 0" if "J < I"
      using tl_zero_nth[of "\<lambda>c. c ! 0" columns "I - J"] za lc I that by simp
    moreover have "columns ! (J - I) ! 0 = 0" if "I < J"
      using tl_zero_nth[of "\<lambda>c. c ! 0" columns "J - I"] za lc J that by simp
    ultimately show ?thesis
      unfolding x_def BTTB_entry_def toeplitz_entry_def using that(2,3) by auto
  qed
  have z3: "x = 0" if "s \<noteq> t" "I = J" "i = j"
  proof -
    have "ss \<noteq> sb" using that(1) by (auto simp: s_def t_def)
    then have "columns ! 0 ! 0 = 0" using z by (simp add: skew_zero_pattern_def)
    then show ?thesis unfolding x_def BTTB_entry_def toeplitz_entry_def using that(2,3) by simp
  qed
  have "(if I = J then 1 else s) * ((if i = j then 1 else t) * x) = s * t * x"
    using s t z1 z2 z3 by (cases "I = J"; cases "i = j") auto
  then show ?thesis using m unfolding s_def t_def x_def by simp
qed

lemma matvec_map_upt:
  assumes "length v = n"
  shows "matvec (map (\<lambda>r. map (\<lambda>c. g r c) [0..<n]) [0..<m]) v
         = map (\<lambda>r. \<Sum>j<n. g r j * v ! j) [0..<m]"
  unfolding matvec_def assms by (simp add: comp_def cong: map_cong)

lemma matvec_transposed_BTTB:
  assumes ss: "ss = ''symm'' \<or> ss = ''skew''" and sb: "sb = ''symm'' \<or> sb = ''skew''"
    and Q: "0 < Q" and P: "0 < P"
    and lc: "length columns = Q" and u: "list_all (\<lambda>c. length c = P) columns"
    and z: "skew_zero_pattern ss sb columns"
    and lv: "length v = Q * P"
  shows "matvec (transpose2 (BTTB_matrix (symmetry_sign ss) (symmetry_sign sb) columns Q P)) v
         = map (\<lambda>x. symmetry_sign ss * symmetry_sign sb * x)
             (matvec (BTTB_matrix (symmetry_sign ss) (symmetry_sign sb) columns Q P) v)"
proof -
  define s where "s = symmetry_sign ss"
  define t where "t = symmetry_sign sb"
  define E where "E r c = BTTB_entry s t columns (r div P) (r mod P) (c div P) (c mod P)" for r c
  have T: "BTTB_matrix s t columns Q P = map (\<lambda>r. map (\<lambda>c. E r c) [0..<Q * P]) [0..<Q * P]"
    by (simp add: BTTB_matrix_def E_def)
  have "transpose2 (BTTB_matrix s t columns Q P)
        = map (\<lambda>r. map (\<lambda>c. E c r) [0..<Q * P]) [0..<Q * P]"
    unfolding E_def by (rule transpose2_BTTB_matrix[OF Q P])
  also have "\<dots> = map (\<lambda>r. map (\<lambda>c. s * t * E r c) [0..<Q * P]) [0..<Q * P]"
  proof (intro map_cong refl)
    fix r c assume "r \<in> set [0..<Q * P]" "c \<in> set [0..<Q * P]"
    then have rc: "r < Q * P" "c < Q * P" by simp_all
    show "E c r = s * t * E r c"
      unfolding E_def s_def t_def
      by (rule BTTB_entry_transposed[OF ss sb lc u z
            div_mod_less(1)[OF rc(1)] div_mod_less(1)[OF rc(2)]
            div_mod_less(2)[OF rc(1)] div_mod_less(2)[OF rc(2)]])
  qed
  finally have Tt: "transpose2 (BTTB_matrix s t columns Q P)
        = map (\<lambda>r. map (\<lambda>c. s * t * E r c) [0..<Q * P]) [0..<Q * P]" .
  have "matvec (transpose2 (BTTB_matrix s t columns Q P)) v
        = map (\<lambda>r. \<Sum>j<Q * P. s * t * E r j * v ! j) [0..<Q * P]"
    unfolding Tt by (rule matvec_map_upt[OF lv])
  also have "\<dots> = map (\<lambda>r. s * t * (\<Sum>j<Q * P. E r j * v ! j)) [0..<Q * P]"
    by (simp add: sum_distrib_left mult.assoc)
  also have "\<dots> = map (\<lambda>x. s * t * x) (map (\<lambda>r. \<Sum>j<Q * P. E r j * v ! j) [0..<Q * P])"
    by (simp add: comp_def)
  also have "map (\<lambda>r. \<Sum>j<Q * P. E r j * v ! j) [0..<Q * P] = matvec (BTTB_matrix s t columns Q P) v"
    unfolding T by (rule matvec_map_upt[OF lv, symmetric])
  finally show ?thesis unfolding s_def t_def .
qed

text \<open>
  Claim C9, amended: \<open>transposition_factor\<close> returns \<open>+1\<close> for \<open>symm-symm\<close> and \<open>skew-skew\<close>,
  \<open>-1\<close> for \<open>symm-skew\<close> and \<open>skew-symm\<close>, and raises ValueError for any other symmetry.  For
  each of the four pure symmetries and every valid specification whose generating columns
  vanish where a skew-symmetric pattern forces a zero (\<open>skew_zero_pattern\<close>; no condition
  for \<open>symm-symm\<close>), the factor times the fast product equals \<open>T\<^sup>t @ v\<close> for the dense
  matrix \<open>T\<close> of \<open>generic_BTTB\<close>, transposed directly.
\<close>

theorem C9_transposition_factor:
  assumes "symmetry_structure \<in> set [''symm'', ''skew'']"
    and "symmetry_blocks \<in> set [''symm'', ''skew'']"
    and "0 < nblocks" and "int (length columns) = nblocks"
    and "0 < npoints_per_block"
    and "list_all (\<lambda>c. int (length c) = npoints_per_block) columns"
    and "skew_zero_pattern symmetry_structure symmetry_blocks columns"
    and "int (length v) = nblocks * npoints_per_block"
    and "ordering' \<in> set [''row'', ''column'']"
    and "other \<notin> set [''skew-skew'', ''skew-symm'', ''symm-skew'', ''symm-symm'']"
  shows "transposition_factor ''symm-symm'' = Inr 1
       \<and> transposition_factor ''skew-skew'' = Inr 1
       \<and> transposition_factor ''symm-skew'' = Inr (- 1)
       \<and> transposition_factor ''skew-symm'' = Inr (- 1)
       \<and> transposition_factor other = Inl ValueError
       \<and> (\<exists>T. generic_BTTB symmetry_structure symmetry_blocks nblocks columns None True = Inr T
              \<and> transposed_fast_product (concat columns) nblocks npoints_per_block
                   (symmetry_structure @ ''-'' @ symmetry_blocks) ordering' v
                 = Inr (matvec (transpose2 T) v))"
proof -
  define Q where "Q = nat nblocks"
  define P where "P = nat npoints_per_block"
  note n = valid_columns_nat[OF assms(3,4,5,6), folded Q_def P_def]
  have ss: "symmetry_structure = ''symm'' \<or> symmetry_structure = ''skew''"
    using assms(1) by auto
  have sb: "symmetry_blocks = ''symm'' \<or> symmetry_blocks = ''skew''"
    using assms(2) by auto
  have ord: "ordering' = ''row'' \<or> ordering' = ''column''" using assms(9) by auto
  have "int (length v) = int (Q * P)" using assms(8) n(1,2) by simp
  then have lv: "length v = Q * P" by (simp only: of_nat_eq_iff)
  define T where "T = BTTB_matrix (symmetry_sign symmetry_structure)
                        (symmetry_sign symmetry_blocks) columns Q P"
  have gT: "generic_BTTB symmetry_structure symmetry_blocks (int Q) columns None True = Inr T"
    unfolding T_def by (rule generic_BTTB_pure[OF ss sb n(3,4,5,6)])
  have F: "fast_product (concat columns) (int Q) (int P)
             (symmetry_structure @ ''-'' @ symmetry_blocks) ordering' v = Inr (matvec T v)"
    unfolding T_def by (rule fast_product_pure[OF ss sb n(3,4,5,6) lv ord])
  have tf: "transposition_factor (symmetry_structure @ ''-'' @ symmetry_blocks)
            = Inr (if symmetry_structure = symmetry_blocks then 1 else - 1)"
    by (rule transposition_factor_pure[OF ss sb])
  have mt: "matvec (transpose2 T) v
         = map (\<lambda>x. real_of_int (if symmetry_structure = symmetry_blocks then 1 else - 1) * x)
             (matvec T v)"
    unfolding T_def sign_product[OF ss sb, symmetric]
    by (rule matvec_transposed_BTTB[OF ss sb n(3,4,5,6) assms(7) lv])
  have "transposed_fast_product (concat columns) (int Q) (int P)
                   (symmetry_structure @ ''-'' @ symmetry_blocks) ordering' v
                 = Inr (matvec (transpose2 T) v)"
    unfolding transposed_fast_product_def tf F mt by (simp only: sum.case)
  then have part2: "\<exists>T. generic_BTTB symmetry_structure symmetry_blocks nblocks columns None True = Inr T
              \<and> transposed_fast_product (concat columns) nblocks npoints_per_block
                   (symmetry_structure @ ''-'' @ symmetry_blocks) ordering' v
                 = Inr (matvec (transpose2 T) v)"
    using gT unfolding n(1,2)[symmetric] by blast
  have table: "transposition_factor ''symm-symm'' = Inr 1"
    "transposition_factor ''skew-skew'' = Inr 1"
    "transposition_factor ''symm-skew'' = Inr (- 1)"
    "transposition_factor ''skew-symm'' = Inr (- 1)"
    by (simp_all add: transposition_factor_def)
  have err: "transposition_factor other = Inl ValueError"
    using assms(10) by (simp add: transposition_factor_def)
  show ?thesis using table err part2 by simp
qed

text \<open>
  The theorem at a symmetric structure of skew-symmetric blocks whose generating columns
  start with zero, and at the tag \<open>gene-gene\<close>.
\<close>

theorem C9_witness:
  "transposition_factor ''gene-gene'' = Inl ValueError
   \<and> generic_BTTB ''symm'' ''skew'' 2 [[0, 2], [0, 3]] None True
       = Inr [[0, - 2, 0, - 3], [2, 0, 3, 0], [0, - 3, 0, - 2], [3, 0, 2, 0]]
   \<and> transposed_fast_product [0, 2, 0, 3] 2 2 ''symm-skew'' ''row'' [1, 2, 3, 4]
       = Inr [16, - 11, 14, - 9]"
proof -
  have T: "generic_BTTB ''symm'' ''skew'' 2 [[0, 2], [0, 3]] None True
       = Inr [[0, - 2, 0, - 3], [2, 0, 3, 0], [0, - 3, 0, - 2], [3, 0, 2, 0]]"
    by code_simp
  have m: "matvec (transpose2 [[0, - 2, 0, - 3], [2, 0, 3, 0], [0, - 3, 0, - 2], [3, 0, 2, 0]])
             [1, 2, 3, 4] = [16, - 11, 14, - 9 :: real]"
    by code_simp
  have z: "skew_zero_pattern ''symm'' ''skew'' [[0, 2], [0, 3]]"
    by (simp add: skew_zero_pattern_def)
  have "transposition_factor ''symm-symm'' = Inr 1
       \<and> transposition_factor ''skew-skew'' = Inr 1
       \<and> transposition_factor ''symm-skew'' = Inr (- 1)
       \<and> transposition_factor ''skew-symm'' = Inr (- 1)
       \<and> transposition_factor ''gene-gene'' = Inl ValueError
       \<and> (\<exists>T. generic_BTTB ''symm'' ''skew'' 2 [[0, 2], [0, 3]] None True = Inr T
              \<and> transposed_fast_product (concat [[0, 2], [0, 3]]) 2 2
                   (''symm'' @ ''-'' @ ''skew'') ''row'' [1, 2, 3, 4]
                 = Inr (matvec (transpose2 T) [1, 2, 3, 4]))"
    by (rule C9_transposition_factor) (simp_all add: z)
  then show ?thesis unfolding T using m by simp
qed

text \<open>
  Claim C9 as stated has no condition on the generating columns.  With the columns
  \<open>[1, 2]\<close> and \<open>[3, 4]\<close>, symmetry \<open>symm-skew\<close> and \<open>v = [1, 0, 0, 0]\<close> the factor times the
  fast product is \<open>[-1, -2, -3, -4]\<close>, while the transposed dense matrix gives
  \<open>[1, -2, 3, -4]\<close>.
\<close>

theorem C9_counterexample:
  "generic_BTTB ''symm'' ''skew'' 2 [[1, 2], [3, 4]] None True
     = Inr [[1, - 2, 3, - 4], [2, 1, 4, 3], [3, - 4, 1, - 2], [4, 3, 2, 1]]
   \<and> transposed_fast_product [1, 2, 3, 4] 2 2 ''symm-skew'' ''row'' [1, 0, 0, 0]
       = Inr [- 1, - 2, - 3, - 4]
   \<and> matvec (transpose2 [[1, - 2, 3, - 4], [2, 1, 4, 3], [3, - 4, 1, - 2], [4, 3, 2, 1]])
        [1, 0, 0, 0] = [1, - 2, 3, - 4]"
proof -
  have T: "generic_BTTB ''symm'' ''skew'' 2 [[1, 2], [3, 4]] None True
     = Inr [[1, - 2, 3, - 4], [2, 1, 4, 3], [3, - 4, 1, - 2], [4, 3, 2, 1]]"
    by code_simp
  have "generic_BTTB ''symm'' ''skew'' (int 2) [[1, 2], [3, 4]] None True
        = Inr (BTTB_matrix (symmetry_sign ''symm'') (symmetry_sign ''skew'') [[1, 2], [3, 4]] 2 2)"
    by (rule generic_BTTB_pure) simp_all
  then have B: "BTTB_matrix (symmetry_sign ''symm'') (symmetry_sign ''skew'') [[1, 2], [3, 4]] 2 2
        = [[1, - 2, 3, - 4], [2, 1, 4, 3], [3, - 4, 1, - 2], [4, 3, 2, 1]]"
    using T by simp
  have "fast_product (concat [[1, 2], [3, 4]]) (int 2) (int 2) (''symm'' @ ''-'' @ ''skew'')
          ''row'' [1, 0, 0, 0]
        = Inr (matvec (BTTB_matrix (symmetry_sign ''symm'') (symmetry_sign ''skew'')
                 [[1, 2], [3, 4]] 2 2) [1, 0, 0, 0])"
    by (rule fast_product_pure) simp_all
  moreover have "matvec [[1, - 2, 3, - 4], [2, 1, 4, 3], [3, - 4, 1, - 2], [4, 3, 2, 1]]
                   [1, 0, 0, 0] = [1, 2, 3, 4 :: real]"
    by code_simp
  ultimately have F: "fast_product [1, 2, 3, 4] 2 2 ''symm-skew'' ''row'' [1, 0, 0, 0]
                      = Inr [1, 2, 3, 4]"
    unfolding B by simp
  have f: "transposition_factor ''symm-skew'' = Inr (- 1)"
    by (simp add: transposition_factor_def)
  have a: "transposed_fast_product [1, 2, 3, 4] 2 2 ''symm-skew'' ''row'' [1, 0, 0, 0]
       = Inr [- 1, - 2, - 3, - 4]"
    unfolding transposed_fast_product_def f F by simp
  have b: "matvec (transpose2 [[1, - 2, 3, - 4], [2, 1, 4, 3], [3, - 4, 1, - 2], [4, 3, 2, 1]])
        [1, 0, 0, 0] = [1, - 2, 3, - 4 :: real]"
    by code_simp
  show ?thesis using T a b by simp
qed

section \<open>The size of the first column\<close>

lemma pure_symmetry_split:
  assumes "symmetry \<in> set [''skew-skew'', ''skew-symm'', ''symm-skew'', ''symm-symm'']"
  obtains ss sb where "symmetry = ss @ ''-'' @ sb"
    "ss = ''symm'' \<or> ss = ''skew''" "sb = ''symm'' \<or> sb = ''skew''"
proof -
  consider "symmetry = ''skew'' @ ''-'' @ ''skew''" | "symmetry = ''skew'' @ ''-'' @ ''symm''"
    | "symmetry = ''symm'' @ ''-'' @ ''skew''" | "symmetry = ''symm'' @ ''-'' @ ''symm''"
    using assms by auto
  then show ?thesis by cases (rule that, assumption, simp, simp)+
qed

lemma split_rows:
  assumes "length b0 = Q * P" "0 < Q"
  shows "length (split b0 Q) = Q" "list_all (\<lambda>x. length x = P) (split b0 Q)"
proof -
  have d: "length b0 div Q = P" using assms by simp
  show "length (split b0 Q) = Q" by (simp add: split_def)
  show "list_all (\<lambda>x. length x = P) (split b0 Q)"
    unfolding split_def d by (rule reshape_rows[OF assms(1)])
qed

text \<open>
  Claim C10: for every \<open>b0\<close> of size \<open>nblocks * npoints_per_block\<close> (both positive, as the
  function demands) and each of the four accepted symmetries, the function returns a
  dictionary whose \<open>first_column\<close> has length exactly \<open>4 * nblocks * npoints_per_block\<close>;
  the size matches the fields of the dictionary, so \<open>eigenvalues_BCCB\<close> passes its checks
  on it and returns for both orderings.
\<close>

theorem C10_first_column_length:
  assumes "0 < nblocks" and "0 < npoints_per_block"
    and "int (length b0) = nblocks * npoints_per_block"
    and "symmetry \<in> set [''skew-skew'', ''skew-symm'', ''symm-skew'', ''symm-symm'']"
    and "ordering' \<in> set [''row'', ''column'']"
  shows "\<exists>B. embedding_BCCB_first_column b0 nblocks npoints_per_block symmetry = Inr B
           \<and> int (length (first_column B)) = 4 * nblocks * npoints_per_block
           \<and> int (length (first_column B)) = 4 * B_nblocks B * B_npoints_per_block B
           \<and> (\<exists>E. eigenvalues_BCCB B ordering' = Inr E)"
proof -
  define Q where "Q = nat nblocks"
  define P where "P = nat npoints_per_block"
  have nQ: "nblocks = int Q" and nP: "npoints_per_block = int P" and Q: "0 < Q" and P: "0 < P"
    using assms(1,2) by (simp_all add: Q_def P_def)
  have "int (length b0) = int (Q * P)" using assms(3) nQ nP by simp
  then have lb: "length b0 = Q * P" by (simp only: of_nat_eq_iff)
  obtain ss sb where sym: "symmetry = ss @ ''-'' @ sb"
    and ss: "ss = ''symm'' \<or> ss = ''skew''" and sb: "sb = ''symm'' \<or> sb = ''skew''"
    using pure_symmetry_split[OF assms(4)] by blast
  define c0 where "c0 = concat (embedding_pieces (symmetry_sign ss) (symmetry_sign sb) (split b0 Q) P)"
  define B where "B = \<lparr>first_column = c0, B_nblocks = int Q, B_npoints_per_block = int P,
                        B_symmetry = ss @ ''-'' @ sb\<rparr>"
  have emb: "embedding_BCCB_first_column b0 nblocks npoints_per_block symmetry = Inr B"
    unfolding nQ nP sym B_def c0_def by (rule embedding_BCCB_first_column_eq[OF ss sb Q P lb])
  have lc0: "length c0 = 2 * Q * (2 * P)"
    unfolding c0_def
    using length_concat_uniform[OF embedding_pieces_uniform[OF split_rows(2)[OF lb Q] P]]
      length_embedding_pieces[of "split b0 Q"] split_rows(1)[OF lb Q] Q
    by simp
  have ord: "ordering' = ''row'' \<or> ordering' = ''column''" using assms(5) by auto
  have eig: "\<exists>E. eigenvalues_BCCB B ordering' = Inr E"
    unfolding B_def
    using eigenvalues_BCCB_eq[OF Q P lc0 nine_symmetries[OF pure_symmetry_tag[OF ss sb]] ord]
    by blast
  have "int (length (first_column B)) = 4 * nblocks * npoints_per_block"
    unfolding B_def nQ nP using lc0 by simp
  moreover have "int (length (first_column B)) = 4 * B_nblocks B * B_npoints_per_block B"
    unfolding B_def using lc0 by simp
  ultimately show ?thesis using emb eig by blast
qed

text \<open>The theorem at two blocks of two points with symmetry \<open>skew-symm\<close>.\<close>

theorem C10_witness:
  "int (length (first_column \<lparr>first_column = [2, 1, 0, 1, 3, 4, 0, 4, 0, 0, 0, 0, - 3, - 4, 0, - 4],
        B_nblocks = 2, B_npoints_per_block = 2, B_symmetry = ''skew-symm''\<rparr>)) = 4 * 2 * 2
   \<and> embedding_BCCB_first_column [2, 1, 3, 4] 2 2 ''skew-symm''
       = Inr \<lparr>first_column = [2, 1, 0, 1, 3, 4, 0, 4, 0, 0, 0, 0, - 3, - 4, 0, - 4],
              B_nblocks = 2, B_npoints_per_block = 2, B_symmetry = ''skew-symm''\<rparr>
   \<and> eigenvalues_BCCB \<lparr>first_column = [2, 1, 0, 1, 3, 4, 0, 4, 0, 0, 0, 0, - 3, - 4, 0, - 4],
        B_nblocks = 2, B_npoints_per_block = 2, B_symmetry = ''skew-symm''\<rparr> ''row''
       \<noteq> Inl ValueError"
proof -
  have e: "embedding_BCCB_first_column [2, 1, 3, 4] 2 2 ''skew-symm''
       = Inr \<lparr>first_column = [2, 1, 0, 1, 3, 4, 0, 4, 0, 0, 0, 0, - 3, - 4, 0, - 4],
              B_nblocks = 2, B_npoints_per_block = 2, B_symmetry = ''skew-symm''\<rparr>"
    by (simp add: embedding_BCCB_first_column_def is_integer_def split_def reshape_def
        upt_2 replicate_4)
  have "\<exists>B. embedding_BCCB_first_column [2, 1, 3, 4] 2 2 ''skew-symm'' = Inr B
           \<and> int (length (first_column B)) = 4 * 2 * 2
           \<and> int (length (first_column B)) = 4 * B_nblocks B * B_npoints_per_block B
           \<and> (\<exists>E. eigenvalues_BCCB B ''row'' = Inr E)"
    by (rule C10_first_column_length) simp_all
  then show ?thesis unfolding e by auto
qed

section \<open>The eigenvalues\<close>

lemma scaled_fft2_nth_nth:
  fixes G :: "real list list"
  assumes M: "0 < M" and N: "0 < N" and lG: "length G = M" and sG: "shape1 G = N"
    and k: "k < M" and l: "l < N"
  shows "map (map (\<lambda>z. complex_of_real (sqrt (real (M * N))) * z))
           (fft2 (map (map complex_of_real) G)) ! k ! l
         = (\<Sum>m<M. \<Sum>n<N. map (map complex_of_real) G ! m ! n *
              (cis (- (2 * pi * (real k * real m / real M)))
               * cis (- (2 * pi * (real l * real n / real N)))))"
proof -
  define Gc where "Gc = map (map complex_of_real) G"
  have lGc: "length Gc = M" by (simp add: Gc_def lG)
  have sGc: "shape1 Gc = N" by (simp add: Gc_def shape1_map_map sG)
  have s0: "complex_of_real (sqrt (real (M * N))) \<noteq> 0" using M N by simp
  have "length (fft2 Gc ! k) = N"
    using k by (simp add: fft2_def length_dft2_row lGc sGc)
  then have "map (map (\<lambda>z. complex_of_real (sqrt (real (M * N))) * z)) (fft2 Gc) ! k ! l
        = complex_of_real (sqrt (real (M * N))) * fft2 Gc ! k ! l"
    using k l by (simp add: fft2_def lGc)
  also have "fft2 Gc ! k ! l
        = (\<Sum>m<M. \<Sum>n<N. Gc ! m ! n *
              (cis (- (2 * pi * (real k * real m / real M)))
               * cis (- (2 * pi * (real l * real n / real N)))))
          / complex_of_real (sqrt (real (M * N)))"
    using fft2_nth_nth[of k Gc l] k l unfolding lGc sGc by simp
  finally show ?thesis unfolding Gc_def using s0 by simp
qed

text \<open>
  Claim C7: for a first column \<open>c0\<close> of length \<open>4 * nblocks * npoints_per_block\<close> and each
  of the nine symmetry tags, \<open>eigenvalues_BCCB\<close> reshapes \<open>c0\<close> row-major into a
  \<open>(2 * nblocks) \<times> (2 * npoints_per_block)\<close> grid (entry \<open>(k, l)\<close> is
  \<open>c0[k * 2 * npoints_per_block + l]\<close>) for ordering \<open>row\<close>, or takes the transpose of that
  grid for ordering \<open>column\<close>, and returns \<open>sqrt(4 * nblocks * npoints_per_block)\<close> times its
  orthonormal two-dimensional transform: a matrix of the shape of the grid, whose entries
  are the plain sums of the grid entries times the two roots of unity.  For
  \<open>nblocks = 1\<close> and \<open>npoints_per_block = 1\<close> the shape is \<open>(2, 2)\<close>.
\<close>

theorem C7_eigenvalues_BCCB:
  assumes "0 < nblocks" and "0 < npoints_per_block"
    and "int (length c0) = 4 * nblocks * npoints_per_block"
    and "symmetry \<in> set [''skew-skew'', ''skew-symm'', ''symm-skew'', ''symm-symm'',
                           ''gene-symm'', ''symm-gene'', ''gene-skew'', ''skew-gene'',
                           ''gene-gene'']"
    and "k < 2 * nat nblocks" and "l < 2 * nat npoints_per_block"
  shows "(\<exists>E. eigenvalues_BCCB \<lparr>first_column = c0, B_nblocks = nblocks,
                 B_npoints_per_block = npoints_per_block, B_symmetry = symmetry\<rparr> ''row'' = Inr E
            \<and> eigenvalues E
                = map (map (\<lambda>z. complex_of_real (sqrt (real_of_int
                                   (4 * nblocks * npoints_per_block))) * z))
                    (fft2 (map (map complex_of_real)
                       (reshape c0 (2 * nat nblocks) (2 * nat npoints_per_block))))
            \<and> has_shape (eigenvalues E) (2 * nblocks) (2 * npoints_per_block)
            \<and> (nblocks = 1 \<and> npoints_per_block = 1 \<longrightarrow> has_shape (eigenvalues E) 2 2)
            \<and> eigenvalues E ! k ! l
                = (\<Sum>m<2 * nat nblocks. \<Sum>n<2 * nat npoints_per_block.
                     complex_of_real (c0 ! (m * (2 * nat npoints_per_block) + n))
                     * (cis (- (2 * pi * (real k * real m / real (2 * nat nblocks))))
                        * cis (- (2 * pi * (real l * real n
                                              / real (2 * nat npoints_per_block)))))))
       \<and> (\<exists>E. eigenvalues_BCCB \<lparr>first_column = c0, B_nblocks = nblocks,
                 B_npoints_per_block = npoints_per_block, B_symmetry = symmetry\<rparr> ''column'' = Inr E
            \<and> eigenvalues E
                = map (map (\<lambda>z. complex_of_real (sqrt (real_of_int
                                   (4 * nblocks * npoints_per_block))) * z))
                    (fft2 (map (map complex_of_real)
                       (transpose2 (reshape c0 (2 * nat nblocks) (2 * nat npoints_per_block)))))
            \<and> has_shape (eigenvalues E) (2 * npoints_per_block) (2 * nblocks)
            \<and> (nblocks = 1 \<and> npoints_per_block = 1 \<longrightarrow> has_shape (eigenvalues E) 2 2)
            \<and> eigenvalues E ! l ! k
                = (\<Sum>n<2 * nat npoints_per_block. \<Sum>m<2 * nat nblocks.
                     complex_of_real (c0 ! (m * (2 * nat npoints_per_block) + n))
                     * (cis (- (2 * pi * (real l * real n / real (2 * nat npoints_per_block))))
                        * cis (- (2 * pi * (real k * real m / real (2 * nat nblocks)))))))
       \<and> reshape c0 (2 * nat nblocks) (2 * nat npoints_per_block) ! k ! l
           = c0 ! (k * (2 * nat npoints_per_block) + l)
       \<and> transpose2 (reshape c0 (2 * nat nblocks) (2 * nat npoints_per_block)) ! l ! k
           = c0 ! (k * (2 * nat npoints_per_block) + l)"
proof -
  define Q where "Q = nat nblocks"
  define P where "P = nat npoints_per_block"
  have nQ: "nblocks = int Q" and nP: "npoints_per_block = int P" and Q: "0 < Q" and P: "0 < P"
    using assms(1,2) by (simp_all add: Q_def P_def)
  have k: "k < 2 * Q" and l: "l < 2 * P" using assms(5,6) by (simp_all add: Q_def P_def)
  have "int (length c0) = int (2 * Q * (2 * P))" using assms(3) nQ nP by simp
  then have lc: "length c0 = 2 * Q * (2 * P)" by (simp only: of_nat_eq_iff)
  have c: "real_of_int (4 * int Q * int P) = real (2 * Q * (2 * P))" by simp
  have c': "real (2 * Q * (2 * P)) = real (2 * P * (2 * Q))" by simp
  define G where "G = reshape c0 (2 * Q) (2 * P)"
  define Lr where "Lr = map (map (\<lambda>z. complex_of_real (sqrt (real (2 * Q * (2 * P)))) * z))
                          (fft2 (map (map complex_of_real) G))"
  define Lc where "Lc = map (map (\<lambda>z. complex_of_real (sqrt (real (2 * Q * (2 * P)))) * z))
                          (fft2 (map (map complex_of_real) (transpose2 G)))"
  have lG: "length G = 2 * Q" by (simp add: G_def)
  have sG: "shape1 G = 2 * P" unfolding G_def using shape1_reshape[OF lc] Q by simp
  have lT: "length (transpose2 G) = 2 * P" by (simp add: length_transpose2 sG)
  have sT: "shape1 (transpose2 G) = 2 * Q" using shape1_transpose2[of G] sG lG P by simp
  have Gkl: "G ! k ! l = c0 ! (k * (2 * P) + l)"
    unfolding G_def by (rule reshape_nth_nth[OF lc k l])
  have Gmn: "map (map complex_of_real) G ! m ! n = complex_of_real (c0 ! (m * (2 * P) + n))"
    if "m < 2 * Q" "n < 2 * P" for m n
    using that reshape_nth_nth[OF lc that] length_reshape_row[OF lc that(1)]
    by (simp add: G_def)
  have Tnm: "map (map complex_of_real) (transpose2 G) ! n ! m
             = complex_of_real (c0 ! (m * (2 * P) + n))"
    if "m < 2 * Q" "n < 2 * P" for m n
  proof -
    have "transpose2 G ! n = map (\<lambda>r. r ! n) G"
      by (rule transpose2_nth) (simp add: sG that)
    then have "map (map complex_of_real) (transpose2 G) ! n ! m = complex_of_real (G ! m ! n)"
      using that lG lT by simp
    then show ?thesis using reshape_nth_nth[OF lc that] by (simp add: G_def)
  qed
  have Tlk: "transpose2 G ! l ! k = c0 ! (k * (2 * P) + l)"
    using transpose2_nth_nth[of l G k] sG lG k l Gkl by simp
  have row: "eigenvalues_BCCB \<lparr>first_column = c0, B_nblocks = int Q,
                 B_npoints_per_block = int P, B_symmetry = symmetry\<rparr> ''row''
             = Inr \<lparr>eigenvalues = Lr, E_ordering = ''row'', E_nblocks = int Q,
                    E_npoints_per_block = int P, E_symmetry = symmetry\<rparr>"
    using eigenvalues_BCCB_eq[OF Q P lc assms(4), of "''row''"] by (simp add: Lr_def G_def)
  have col: "eigenvalues_BCCB \<lparr>first_column = c0, B_nblocks = int Q,
                 B_npoints_per_block = int P, B_symmetry = symmetry\<rparr> ''column''
             = Inr \<lparr>eigenvalues = Lc, E_ordering = ''column'', E_nblocks = int Q,
                    E_npoints_per_block = int P, E_symmetry = symmetry\<rparr>"
    using eigenvalues_BCCB_eq[OF Q P lc assms(4), of "''column''"] by (simp add: Lc_def G_def)
  have "has_shape Lr (int (2 * Q)) (int (2 * P))"
    unfolding Lr_def by (rule eigen_grid_shape) (simp_all add: shape1_map_map lG sG)
  then have shr: "has_shape Lr (2 * int Q) (2 * int P)" by simp
  have "has_shape Lc (int (2 * P)) (int (2 * Q))"
    unfolding Lc_def by (rule eigen_grid_shape) (simp_all add: shape1_map_map lT sT)
  then have shc: "has_shape Lc (2 * int P) (2 * int Q)" by simp
  have er: "Lr ! k ! l = (\<Sum>m<2 * Q. \<Sum>n<2 * P.
                     complex_of_real (c0 ! (m * (2 * P) + n))
                     * (cis (- (2 * pi * (real k * real m / real (2 * Q))))
                        * cis (- (2 * pi * (real l * real n / real (2 * P))))))"
  proof -
    have "Lr ! k ! l = (\<Sum>m<2 * Q. \<Sum>n<2 * P. map (map complex_of_real) G ! m ! n *
              (cis (- (2 * pi * (real k * real m / real (2 * Q))))
               * cis (- (2 * pi * (real l * real n / real (2 * P))))))"
      unfolding Lr_def by (rule scaled_fft2_nth_nth) (use Q P lG sG k l in simp_all)
    also have "\<dots> = (\<Sum>m<2 * Q. \<Sum>n<2 * P.
                     complex_of_real (c0 ! (m * (2 * P) + n))
                     * (cis (- (2 * pi * (real k * real m / real (2 * Q))))
                        * cis (- (2 * pi * (real l * real n / real (2 * P))))))"
      by (intro sum.cong refl) (simp add: Gmn)
    finally show ?thesis .
  qed
  have ec: "Lc ! l ! k = (\<Sum>n<2 * P. \<Sum>m<2 * Q.
                     complex_of_real (c0 ! (m * (2 * P) + n))
                     * (cis (- (2 * pi * (real l * real n / real (2 * P))))
                        * cis (- (2 * pi * (real k * real m / real (2 * Q))))))"
  proof -
    have "Lc ! l ! k = (\<Sum>n<2 * P. \<Sum>m<2 * Q.
              map (map complex_of_real) (transpose2 G) ! n ! m *
              (cis (- (2 * pi * (real l * real n / real (2 * P))))
               * cis (- (2 * pi * (real k * real m / real (2 * Q))))))"
      unfolding Lc_def c'
      by (rule scaled_fft2_nth_nth) (use Q P lT sT k l in simp_all)
    also have "\<dots> = (\<Sum>n<2 * P. \<Sum>m<2 * Q.
                     complex_of_real (c0 ! (m * (2 * P) + n))
                     * (cis (- (2 * pi * (real l * real n / real (2 * P))))
                        * cis (- (2 * pi * (real k * real m / real (2 * Q))))))"
      by (intro sum.cong refl) (simp add: Tnm)
    finally show ?thesis .
  qed
  have A: "\<exists>E. eigenvalues_BCCB \<lparr>first_column = c0, B_nblocks = int Q,
                 B_npoints_per_block = int P, B_symmetry = symmetry\<rparr> ''row'' = Inr E
            \<and> eigenvalues E = Lr
            \<and> has_shape (eigenvalues E) (2 * int Q) (2 * int P)
            \<and> (int Q = 1 \<and> int P = 1 \<longrightarrow> has_shape (eigenvalues E) 2 2)
            \<and> eigenvalues E ! k ! l
                = (\<Sum>m<2 * Q. \<Sum>n<2 * P.
                     complex_of_real (c0 ! (m * (2 * P) + n))
                     * (cis (- (2 * pi * (real k * real m / real (2 * Q))))
                        * cis (- (2 * pi * (real l * real n / real (2 * P))))))"
    using row shr er by auto
  have B: "\<exists>E. eigenvalues_BCCB \<lparr>first_column = c0, B_nblocks = int Q,
                 B_npoints_per_block = int P, B_symmetry = symmetry\<rparr> ''column'' = Inr E
            \<and> eigenvalues E = Lc
            \<and> has_shape (eigenvalues E) (2 * int P) (2 * int Q)
            \<and> (int Q = 1 \<and> int P = 1 \<longrightarrow> has_shape (eigenvalues E) 2 2)
            \<and> eigenvalues E ! l ! k
                = (\<Sum>n<2 * P. \<Sum>m<2 * Q.
                     complex_of_real (c0 ! (m * (2 * P) + n))
                     * (cis (- (2 * pi * (real l * real n / real (2 * P))))
                        * cis (- (2 * pi * (real k * real m / real (2 * Q))))))"
    using col shc ec by auto
  show ?thesis
    using A B Gkl Tlk
    unfolding nQ nP Lr_def Lc_def G_def c nat_int by blast
qed

lemma cis_minus_pi: "cis (- pi) = - 1"
  by (simp add: cis_cnj[symmetric])

lemma sum_less_two: "(\<Sum>m<(2::nat). f m) = f 0 + (f 1 :: complex)"
  by (simp add: numeral_2_eq_2)

lemma list_of_two:
  assumes "length x = 2"
  shows "x = [x ! 0, x ! 1]"
  using assms by (cases x; cases "tl x"; cases "tl (tl x)") auto

lemma two_by_two:
  assumes "has_shape X 2 2"
  shows "X = [[X ! 0 ! 0, X ! 0 ! 1], [X ! 1 ! 0, X ! 1 ! 1]]"
proof -
  have l: "length X = 2" and r: "length (X ! 0) = 2" "length (X ! 1) = 2"
    using assms by (simp_all add: has_shape_def list_all_length)
  have "X = [X ! 0, X ! 1]" by (rule list_of_two[OF l])
  then show ?thesis using list_of_two[OF r(1)] list_of_two[OF r(2)] by metis
qed

text \<open>
  The theorem at the boundary case \<open>nblocks = 1\<close>, \<open>npoints_per_block = 1\<close> with the first
  column \<open>[1, 2, 3, 4]\<close>: the eigenvalues form the \<open>2 \<times> 2\<close> matrix with the entries
  \<open>1 + 2 + 3 + 4\<close>, \<open>1 - 2 + 3 - 4\<close>, \<open>1 + 2 - 3 - 4\<close> and \<open>1 - 2 - 3 + 4\<close>.
\<close>

theorem C7_witness:
  "map_sum id eigenvalues
     (eigenvalues_BCCB \<lparr>first_column = [1, 2, 3, 4], B_nblocks = 1,
        B_npoints_per_block = 1, B_symmetry = ''symm-symm''\<rparr> ''row'')
   = Inr [[10, - 2], [- 4, 0]]"
proof -
  let ?B = "\<lparr>first_column = [1, 2, 3, 4 :: real], B_nblocks = 1,
        B_npoints_per_block = 1, B_symmetry = ''symm-symm''\<rparr>"
  have entry: "\<exists>E. eigenvalues_BCCB ?B ''row'' = Inr E
            \<and> has_shape (eigenvalues E) 2 2
            \<and> eigenvalues E ! k ! l
                = (\<Sum>m<2. \<Sum>n<2.
                     complex_of_real ([1, 2, 3, 4] ! (m * 2 + n))
                     * (cis (- (2 * pi * (real k * real m / 2)))
                        * cis (- (2 * pi * (real l * real n / 2)))))"
    if "k < 2" "l < 2" for k l
    using C7_eigenvalues_BCCB[of 1 1 "[1, 2, 3, 4]" "''symm-symm''" k l] that by auto
  obtain E where E: "eigenvalues_BCCB ?B ''row'' = Inr E" and sh: "has_shape (eigenvalues E) 2 2"
    using entry[of 0 0] by auto
  have e: "eigenvalues E ! k ! l
                = (\<Sum>m<2. \<Sum>n<2.
                     complex_of_real ([1, 2, 3, 4] ! (m * 2 + n))
                     * (cis (- (2 * pi * (real k * real m / 2)))
                        * cis (- (2 * pi * (real l * real n / 2)))))"
    if "k < 2" "l < 2" for k l
    using entry[OF that] E by auto
  have "eigenvalues E ! 0 ! 0 = 10" "eigenvalues E ! 0 ! 1 = - 2"
    "eigenvalues E ! 1 ! 0 = - 4" "eigenvalues E ! 1 ! 1 = 0"
    using e[of 0 0] e[of 0 1] e[of 1 0] e[of 1 1]
    by (simp_all add: sum_less_two cis_minus_pi)
  then have "eigenvalues E = [[10, - 2], [- 4, 0]]"
    using two_by_two[OF sh] by simp
  then show ?thesis using E by simp
qed

section \<open>The circulant embedding of a Toeplitz block\<close>

lemma circulant_indices_nat:
  "circulant_indices (2 * int P)
   = map (\<lambda>r. map (\<lambda>c. int r - int c) [0..<2 * P]) [0..<2 * P]"
proof -
  have "nat (2 * int P) = 2 * P" by simp
  then show ?thesis unfolding circulant_indices_def by (simp only:)
qed

lemma wrap_index_mod:
  assumes "r < n" "c < n"
  shows "in_bounds n (int r - int c)"
    and "wrap_index n (int r - int c) = nat ((int r - int c) mod int n)"
proof -
  show "in_bounds n (int r - int c)" using assms by (simp add: in_bounds_def)
  show "wrap_index n (int r - int c) = nat ((int r - int c) mod int n)"
  proof (cases "int r - int c < 0")
    case True
    have "(int r - int c) mod int n = (int r - int c + int n) mod int n" by simp
    also have "\<dots> = int r - int c + int n"
      by (rule mod_pos_pos_trivial) (use assms True in simp_all)
    finally show ?thesis using True by (simp add: wrap_index_def add.commute)
  next
    case False
    have "(int r - int c) mod int n = int r - int c"
      by (rule mod_pos_pos_trivial) (use assms False in simp_all)
    then show ?thesis using False by (simp add: wrap_index_def)
  qed
qed

lemma fancy_index_circulant:
  assumes "length C = 2 * P"
  shows "fancy_index C (circulant_indices (2 * int P))
         = Inr (map (\<lambda>i. map (\<lambda>j. C ! nat ((int i - int j) mod int (2 * P))) [0..<2 * P])
                  [0..<2 * P])"
proof -
  have b: "list_all (list_all (in_bounds (length C)))
             (map (\<lambda>r. map (\<lambda>c. int r - int c) [0..<2 * P]) [0..<2 * P])"
    unfolding assms using wrap_index_mod(1)[of _ "2 * P"] by (simp add: list_all_iff)
  have "map (map (\<lambda>i. C ! wrap_index (length C) i))
          (map (\<lambda>r. map (\<lambda>c. int r - int c) [0..<2 * P]) [0..<2 * P])
        = map (\<lambda>i. map (\<lambda>j. C ! nat ((int i - int j) mod int (2 * P))) [0..<2 * P]) [0..<2 * P]"
    unfolding assms map_map comp_def
  proof (intro map_cong refl)
    fix i j assume "i \<in> set [0..<2 * P]" "j \<in> set [0..<2 * P]"
    then have "i < 2 * P" "j < 2 * P" by simp_all
    then show "C ! wrap_index (2 * P) (int i - int j) = C ! nat ((int i - int j) mod int (2 * P))"
      by (simp only: wrap_index_mod(2))
  qed
  then show ?thesis
    unfolding fancy_index_def circulant_indices_nat using b by simp
qed

lemma circulant_column_pure:
  assumes "symmetry = ''symm'' \<or> symmetry = ''skew''"
  shows "circulant_column symmetry column None
         = Inr (column @ [0] @ map ((*) (symmetry_sign symmetry)) (rev (tl column)))"
  using assms
  by (auto simp: circulant_column_def symmetry_sign_def map_times_one map_times_minus_one)

lemma top_left_grid:
  "top_left P (map (\<lambda>i. map (g i) [0..<P + P]) [0..<P + P])
   = map (\<lambda>i. map (g i) [0..<P]) [0..<P]"
proof -
  have tk: "take P [0..<P + P] = [0..<P]"
    using take_upt[of 0 P "P + P"] by simp
  have "take P (map (\<lambda>i. map (g i) [0..<P + P]) [0..<P + P])
        = map (\<lambda>i. map (g i) [0..<P + P]) [0..<P]"
    by (simp only: take_map tk)
  then have "top_left P (map (\<lambda>i. map (g i) [0..<P + P]) [0..<P + P])
        = map (take P) (map (\<lambda>i. map (g i) [0..<P + P]) [0..<P])"
    by (simp only: top_left_def)
  also have "\<dots> = map (\<lambda>i. take P (map (g i) [0..<P + P])) [0..<P]"
    by (induction P) simp_all
  also have "\<dots> = map (\<lambda>i. map (g i) [0..<P]) [0..<P]"
    by (simp only: take_map tk)
  finally show ?thesis .
qed

lemma top_left_circulant:
  assumes "column \<noteq> []"
  shows "top_left (length column)
           (circulant_of (column @ [0] @ map ((*) t) (rev (tl column))))
         = toeplitz_block t column"
proof -
  define P where "P = length column"
  define C where "C = column @ [0] @ map ((*) t) (rev (tl column))"
  have P: "0 < P" using assms by (simp add: P_def)
  have lC: "length C = 2 * P" using P by (simp add: C_def P_def)
  have "top_left P (circulant_of C)
        = map (\<lambda>i. map (\<lambda>j. C ! nat ((int i - int j) mod int (2 * P))) [0..<P]) [0..<P]"
    unfolding circulant_of_def lC mult_2
    by (rule top_left_grid)
  also have "\<dots> = map (\<lambda>i. map (\<lambda>j. toeplitz_entry t column i j) [0..<P]) [0..<P]"
  proof (intro map_cong refl)
    fix i j assume "i \<in> set [0..<P]" "j \<in> set [0..<P]"
    then have ij: "i < P" "j < P" by simp_all
    have lcol: "length column = P" by (simp add: P_def)
    show "C ! nat ((int i - int j) mod int (2 * P)) = toeplitz_entry t column i j"
      unfolding C_def toeplitz_entry_def
      by (rule piece_nth[OF lcol lcol ij])
  qed
  finally show ?thesis unfolding P_def C_def toeplitz_block_def .
qed

lemma single_block_BTTB:
  assumes "column \<noteq> []" and sb: "sb = ''symm'' \<or> sb = ''skew''"
  shows "generic_BTTB ''symm'' sb 1 [column] None True
         = Inr (toeplitz_block (symmetry_sign sb) column)"
proof -
  define P where "P = length column"
  have P: "0 < P" using assms(1) by (simp add: P_def)
  have "generic_BTTB ''symm'' sb (int 1) [column] None True
        = Inr (BTTB_matrix (symmetry_sign ''symm'') (symmetry_sign sb) [column] 1 P)"
    by (rule generic_BTTB_pure[OF _ sb _ P]) (simp_all add: P_def)
  moreover have "BTTB_matrix (symmetry_sign ''symm'') (symmetry_sign sb) [column] 1 P
        = toeplitz_block (symmetry_sign sb) column"
    unfolding BTTB_matrix_def toeplitz_block_def P_def[symmetric]
    by (intro map_cong) (simp_all add: BTTB_entry_def)
  ultimately show ?thesis by simp
qed

text \<open>
  Claim C8: for every non-empty column of length \<open>P\<close> and symmetry \<open>symm\<close> or \<open>skew\<close>,
  \<open>Circulant_from_Toeplitz\<close> builds the generating column \<open>C\<close> from the column, a zero and
  the reversed (for \<open>skew\<close>: negated) rest of the column, of length \<open>2 P\<close>; with
  \<open>full = True\<close> it returns the \<open>2 P \<times> 2 P\<close> matrix with entry \<open>C[(i - j) mod 2 P]\<close> at
  \<open>(i, j)\<close>, whose top-left \<open>P \<times> P\<close> quadrant is the Toeplitz matrix of the column and the
  derived row, the matrix that \<open>generic_BTTB\<close> builds for this single block.  For the column
  \<open>[2, 1]\<close> and symmetry \<open>symm\<close> the first column is \<open>[2, 1, 0, 1]\<close>, the full circulant has
  the entries \<open>(0, 0) = 2\<close>, \<open>(1, 0) = 1\<close>, \<open>(3, 0) = 1\<close>, \<open>(0, 1) = 1\<close>, and the dense Toeplitz
  matrix is \<open>[[2, 1], [1, 2]]\<close>.
\<close>

theorem C8_Circulant_from_Toeplitz:
  assumes "column \<noteq> []" and "symmetry \<in> set [''symm'', ''skew'']"
  shows "Circulant_from_Toeplitz symmetry column None False True
           = Inr (Array1 (column @ [0] @ map ((*) (symmetry_sign symmetry)) (rev (tl column))))
       \<and> Circulant_from_Toeplitz symmetry column None True True
           = Inr (Array2 (circulant_of
                    (column @ [0] @ map ((*) (symmetry_sign symmetry)) (rev (tl column)))))
       \<and> length (column @ [0] @ map ((*) (symmetry_sign symmetry)) (rev (tl column)))
           = 2 * length column
       \<and> top_left (length column)
            (circulant_of (column @ [0] @ map ((*) (symmetry_sign symmetry)) (rev (tl column))))
           = toeplitz_block (symmetry_sign symmetry) column
       \<and> generic_BTTB ''symm'' symmetry 1 [column] None True
           = Inr (toeplitz_block (symmetry_sign symmetry) column)
       \<and> Circulant_from_Toeplitz ''symm'' [2, 1] None False True = Inr (Array1 [2, 1, 0, 1])
       \<and> Circulant_from_Toeplitz ''symm'' [2, 1] None True True
           = Inr (Array2 [[2, 1, 0, 1], [1, 2, 1, 0], [0, 1, 2, 1], [1, 0, 1, 2]])
       \<and> generic_BTTB ''symm'' ''symm'' 1 [[2, 1]] None True = Inr [[2, 1], [1, 2]]"
proof -
  define C where "C = column @ [0] @ map ((*) (symmetry_sign symmetry)) (rev (tl column))"
  have sym: "symmetry = ''symm'' \<or> symmetry = ''skew''" using assms(2) by auto
  have meta: "Toeplitz_metadata symmetry column None = None"
    using assms(1) sym by (auto simp: Toeplitz_metadata_def)
  have col: "circulant_column symmetry column None = Inr C"
    unfolding C_def by (rule circulant_column_pure[OF sym])
  have lC: "length C = 2 * length column" using assms(1) by (simp add: C_def)
  have gather: "fancy_index C (circulant_indices (2 * int (length column)))
                = Inr (circulant_of C)"
    unfolding circulant_of_def lC by (rule fancy_index_circulant[OF lC])
  have a: "Circulant_from_Toeplitz symmetry column None False True = Inr (Array1 C)"
    by (simp add: Circulant_from_Toeplitz_def meta col)
  have b: "Circulant_from_Toeplitz symmetry column None True True = Inr (Array2 (circulant_of C))"
    by (simp add: Circulant_from_Toeplitz_def meta col gather)
  have c: "top_left (length column) (circulant_of C) = toeplitz_block (symmetry_sign symmetry) column"
    unfolding C_def by (rule top_left_circulant[OF assms(1)])
  have d: "generic_BTTB ''symm'' symmetry 1 [column] None True
           = Inr (toeplitz_block (symmetry_sign symmetry) column)"
    by (rule single_block_BTTB[OF assms(1) sym])
  have e: "Circulant_from_Toeplitz ''symm'' [2, 1] None False True = Inr (Array1 [2, 1, 0, 1])"
    "Circulant_from_Toeplitz ''symm'' [2, 1] None True True
           = Inr (Array2 [[2, 1, 0, 1], [1, 2, 1, 0], [0, 1, 2, 1], [1, 0, 1, 2]])"
    "generic_BTTB ''symm'' ''symm'' 1 [[2, 1]] None True = Inr [[2, 1], [1, 2]]"
    by code_simp+
  show ?thesis using a b c d e lC unfolding C_def by simp
qed

text \<open>The theorem at the column \<open>[2, 1, 5]\<close> with symmetry \<open>skew\<close>.\<close>

theorem C8_witness:
  "Circulant_from_Toeplitz ''skew'' [2, 1, 5] None False True = Inr (Array1 [2, 1, 5, 0, - 5, - 1])
   \<and> Circulant_from_Toeplitz ''skew'' [2, 1, 5] None True True
       = Inr (Array2 [[2, - 1, - 5, 0, 5, 1], [1, 2, - 1, - 5, 0, 5], [5, 1, 2, - 1, - 5, 0],
                      [0, 5, 1, 2, - 1, - 5], [- 5, 0, 5, 1, 2, - 1], [- 1, - 5, 0, 5, 1, 2]])
   \<and> top_left 3 [[2, - 1, - 5, 0, 5, 1], [1, 2, - 1, - 5, 0, 5], [5, 1, 2, - 1, - 5, 0],
                  [0, 5, 1, 2, - 1, - 5], [- 5, 0, 5, 1, 2, - 1], [- 1, - 5, 0, 5, 1, 2 :: real]]
       = [[2, - 1, - 5], [1, 2, - 1], [5, 1, 2]]
   \<and> generic_BTTB ''symm'' ''skew'' 1 [[2, 1, 5]] None True
       = Inr [[2, - 1, - 5], [1, 2, - 1], [5, 1, 2]]"
proof -
  have C: "[2, 1, 5] @ [0] @ map ((*) (symmetry_sign ''skew'')) (rev (tl [2, 1, 5]))
           = [2, 1, 5, 0, - 5, - 1 :: real]"
    by (simp add: symmetry_sign_def)
  have M: "circulant_of [2, 1, 5, 0, - 5, - 1]
           = [[2, - 1, - 5, 0, 5, 1], [1, 2, - 1, - 5, 0, 5], [5, 1, 2, - 1, - 5, 0],
              [0, 5, 1, 2, - 1, - 5], [- 5, 0, 5, 1, 2, - 1], [- 1, - 5, 0, 5, 1, 2]]"
    by code_simp
  have T: "toeplitz_block (symmetry_sign ''skew'') [2, 1, 5]
           = [[2, - 1, - 5], [1, 2, - 1], [5, 1, 2]]"
    by code_simp
  have l3: "length [2, 1, 5 :: real] = 3" by simp
  have ne: "[2, 1, 5 :: real] \<noteq> []" by simp
  have sy: "''skew'' \<in> set [''symm'', ''skew'']" by simp
  note th = C8_Circulant_from_Toeplitz[OF ne sy, unfolded C M T l3]
  show ?thesis using th by blast
qed

section \<open>The validation flag\<close>

text \<open>
  With \<open>check_input=False\<close> the function \<open>product_BCCB_vector\<close> never reaches its
  computation: the names it reads are bound only inside the block of the checks.
\<close>

lemma product_BCCB_vector_unchecked:
  "product_BCCB_vector BCCB_eigen v False = Inl UnboundLocalError"
  by (simp add: product_BCCB_vector_def)




end
